theory Spec2Isabelle
  imports Main "HOL-Library.Word"
begin

unbundle bit_operations_syntax

section \<open>Data model (lex.go, parse.go, eval.go)\<close>

text \<open>
  Go strings are modelled as the sequence of their runes (code points). Every string of
  the interpreter is built from runes (\<open>WriteRune\<close>, \<open>string(r)\<close>, source literals)
  and is only compared, used as a map key, printed, or inspected by \<open>isCadR\<close> and
  \<open>cadrFunc\<close>, whose byte indexing meets only ASCII bytes when it succeeds.
\<close>

type_synonym rune = int
type_synonym gostring = "rune list"

definition runes :: "string \<Rightarrow> gostring" where
  "runes s = map of_char s"

datatype TokType =
    tokenError | TokenEOF | tokenAtom | tokenConst | tokenNumber | tokenLpar
  | tokenRpar | tokenDot | tokenChar | tokenQuote | tokenNewline

text \<open>
  \<open>type token struct { typ TokType; text string; num *big.Int }\<close>.
  The program handles tokens by pointer. Tokens that are not numbers are interned by
  their text (\<open>atoms\<close>), so two pointers are equal exactly when the records are;
  their \<open>num\<close> is the shared \<open>zero\<close>. Number tokens are allocated per literal and
  have the empty text; the model identifies two number tokens with equal values, which the
  program can only tell apart as keys of a frame, and it never reads a frame at a
  number key (\<open>get\<close> answers for numbers before looking).
\<close>

record token =
  tok_typ :: TokType
  tok_text :: gostring
  tok_num :: int

datatype expr = Nil | Atom token | Pair expr expr

type_synonym frame = "token \<rightharpoonup> expr"

text \<open>The two panic types of the package, the process exit of \<open>log.Fatal\<close>, and Go's
  own run-time panic (an index out of range).\<close>

datatype error_msg =
    CannotSetConstant token
  | IsElementary token
  | Undefined gostring expr
  | StackTooDeep
  | NotAFunction expr
  | ArgsMismatch gostring expr expr
  | NoAtom
  | ApplyFailed gostring expr
  | CannotEval expr
  | NoTrueCaseInCond
  | EmptyFunctionInDefn
  | MalformedDefn
  | ExpectNumber expr
  | DivisionByZero
  | RemByZero
  | BadNumberSyntax gostring
  | InvalidTokenAfter gostring
  | BadTokenInSExpr token
  | BadTokenInList token
  | BadTokenParsingList token

datatype signal =
    Error error_msg
  | EOF
  | LogFatal gostring token
  | RuntimePanic

record scope =
  vars :: frame
  fn :: gostring
  args :: expr

text \<open>Go's \<open>int\<close> is taken at 64 bits; \<open>stackDepth++\<close> wraps and the comparisons
  are signed.\<close>

record Context =
  scope :: "scope list"
  stackDepth :: "64 word"
  maxStackDepth :: "64 word"

subsection \<open>Interned tokens (lex.go)\<close>

definition mkInterned :: "TokType \<Rightarrow> string \<Rightarrow> token" where
  "mkInterned ty s = \<lparr>tok_typ = ty, tok_text = runes s, tok_num = 0\<rparr>"

definition number :: "int \<Rightarrow> token" where
  "number n = \<lparr>tok_typ = tokenNumber, tok_text = [], tok_num = n\<rparr>"

definition tokF :: token where "tokF = mkInterned tokenConst ''F''"
definition tokT :: token where "tokT = mkInterned tokenConst ''T''"
definition tokNil :: token where "tokNil = mkInterned tokenConst ''nil''"
definition tokAdd :: token where "tokAdd = mkInterned tokenAtom ''add''"
definition tokAnd :: token where "tokAnd = mkInterned tokenAtom ''and''"
definition tokApply :: token where "tokApply = mkInterned tokenAtom ''apply''"
definition tokAtom :: token where "tokAtom = mkInterned tokenAtom ''atom''"
definition tokCar :: token where "tokCar = mkInterned tokenAtom ''car''"
definition tokCdr :: token where "tokCdr = mkInterned tokenAtom ''cdr''"
definition tokCond :: token where "tokCond = mkInterned tokenAtom ''cond''"
definition tokCons :: token where "tokCons = mkInterned tokenAtom ''cons''"
definition tokDefn :: token where "tokDefn = mkInterned tokenAtom ''defn''"
definition tokDiv :: token where "tokDiv = mkInterned tokenAtom ''div''"
definition tokEq :: token where "tokEq = mkInterned tokenAtom ''eq''"
definition tokGe :: token where "tokGe = mkInterned tokenAtom ''ge''"
definition tokASCIILambda :: token where "tokASCIILambda = mkInterned tokenAtom ''lambda''"
definition tokGt :: token where "tokGt = mkInterned tokenAtom ''gt''"
definition tokLambda :: token where
  "tokLambda = \<lparr>tok_typ = tokenAtom, tok_text = [955], tok_num = 0\<rparr>"
definition tokLe :: token where "tokLe = mkInterned tokenAtom ''le''"
definition tokList :: token where "tokList = mkInterned tokenAtom ''list''"
definition tokLt :: token where "tokLt = mkInterned tokenAtom ''lt''"
definition tokMul :: token where "tokMul = mkInterned tokenAtom ''mul''"
definition tokNe :: token where "tokNe = mkInterned tokenAtom ''ne''"
definition tokOr :: token where "tokOr = mkInterned tokenAtom ''or''"
definition tokNull :: token where "tokNull = mkInterned tokenAtom ''null''"
definition tokQuote :: token where "tokQuote = mkInterned tokenAtom ''quote''"
definition tokRem :: token where "tokRem = mkInterned tokenAtom ''rem''"
definition tokSub :: token where "tokSub = mkInterned tokenAtom ''sub''"

lemmas tok_defs =
  mkInterned_def runes_def number_def tokF_def tokT_def tokNil_def tokAdd_def tokAnd_def
  tokApply_def tokAtom_def tokCar_def tokCdr_def tokCond_def tokCons_def tokDefn_def
  tokDiv_def tokEq_def tokGe_def tokASCIILambda_def tokGt_def tokLambda_def tokLe_def
  tokList_def tokLt_def tokMul_def tokNe_def tokOr_def tokNull_def tokQuote_def
  tokRem_def tokSub_def

subsection \<open>Expressions (eval.go, elem.go)\<close>

definition atomExpr :: "token \<Rightarrow> expr" where
  "atomExpr tok = Atom tok"

definition constT :: expr where "constT = atomExpr tokT"
definition constF :: expr where "constF = atomExpr tokF"
definition constNIL :: expr where "constNIL = atomExpr tokNil"

fun Car :: "expr \<Rightarrow> expr" where
  "Car Nil = Nil"
| "Car (Atom t) = Nil"
| "Car (Pair a d) = a"

fun Cdr :: "expr \<Rightarrow> expr" where
  "Cdr Nil = Nil"
| "Cdr (Atom t) = Nil"
| "Cdr (Pair a d) = d"

definition Cons :: "expr \<Rightarrow> expr \<Rightarrow> expr" where
  "Cons a d = Pair a d"

fun getAtom :: "expr \<Rightarrow> token option" where
  "getAtom (Atom t) = Some t"
| "getAtom e = None"

definition truthExpr :: "bool \<Rightarrow> expr" where
  "truthExpr t = (if t then constT else constF)"

fun isTrue :: "expr \<Rightarrow> bool" where
  "isTrue (Atom t) = (t = tokT)"
| "isTrue e = False"

subsection \<open>Composite car/cdr names (eval.go, elem.go)\<close>

definition isCadR :: "gostring \<Rightarrow> bool" where
  "isCadR s =
     (if length s < 3 \<or> s ! 0 \<noteq> of_char CHR ''c'' \<or> s ! (length s - 1) \<noteq> of_char CHR ''r''
      then False
      else list_all (\<lambda>c. \<not> (c \<noteq> of_char CHR ''a'' \<and> c \<noteq> of_char CHR ''d''))
             (take (length s - 1 - 1) (drop 1 s)))"

text \<open>The loop of \<open>cadrFunc\<close>: \<open>for i := len(str) - 2; expr != nil && i > 0; i--\<close>.\<close>

fun cadrLoop :: "gostring \<Rightarrow> nat \<Rightarrow> expr \<Rightarrow> expr" where
  "cadrLoop str 0 e = e"
| "cadrLoop str (Suc i) e =
     (if e \<noteq> Nil
      then cadrLoop str i (if str ! Suc i = of_char CHR ''a'' then Car e else Cdr e)
      else e)"

definition cadrFunc :: "token \<Rightarrow> expr \<Rightarrow> expr" where
  "cadrFunc name e =
     (let str = tok_text name in
      if \<not> isCadR str then Nil
      else cadrLoop str (length str - 2) (Car e))"

text \<open>What a composite name denotes, read off its middle letters: the leftmost letter is
  the outermost operation.\<close>

fun cadrCompose :: "gostring \<Rightarrow> expr \<Rightarrow> expr" where
  "cadrCompose [] x = x"
| "cadrCompose (l # ls) x =
     (if l = of_char CHR ''a'' then Car (cadrCompose ls x) else Cdr (cadrCompose ls x))"

section \<open>The evaluator (eval.go, elem.go, math.go)\<close>

subsection \<open>Scopes\<close>

definition top :: gostring where
  "top = runes ''<top>''"

definition push :: "Context \<Rightarrow> gostring \<Rightarrow> expr \<Rightarrow> Context" where
  "push c f a = c\<lparr>scope := scope c @ [\<lparr>vars = Map.empty, fn = f, args = a\<rparr>]\<rparr>"

text \<open>\<open>c.scope[len(c.scope)-1] = nil\<close> panics on an empty stack.\<close>

definition pop :: "Context \<Rightarrow> signal + Context" where
  "pop c = (if scope c = [] then Inl RuntimePanic else Inr (c\<lparr>scope := butlast (scope c)\<rparr>))"

definition PopStack :: "Context \<Rightarrow> Context" where
  "PopStack c = c\<lparr>stackDepth := 0, scope := take 1 (scope c)\<rparr>"

text \<open>A \<open>*scope\<close> is modelled by its index in \<open>c.scope\<close>. The loop of \<open>getScope\<close>
  walks the stack from index 0 and overwrites \<open>sc\<close> at every frame that has the key.\<close>

fun getScopeLoop :: "scope list \<Rightarrow> token \<Rightarrow> nat \<Rightarrow> nat option \<Rightarrow> nat option" where
  "getScopeLoop [] tok i sc = sc"
| "getScopeLoop (s # ss) tok i sc =
     getScopeLoop ss tok (Suc i) (if vars s tok \<noteq> None then Some i else sc)"

definition getScope :: "Context \<Rightarrow> token \<Rightarrow> signal + nat" where
  "getScope c tok =
     (case getScopeLoop (scope c) tok 0 None of
        None \<Rightarrow> if scope c = [] then Inl RuntimePanic else Inr (length (scope c) - 1)
      | Some i \<Rightarrow> Inr i)"

definition notConst :: "token \<Rightarrow> signal + unit" where
  "notConst tok =
     (if tok_typ tok = tokenConst then Inl (Error (CannotSetConstant tok)) else Inr ())"

definition bindAt :: "Context \<Rightarrow> nat \<Rightarrow> token \<Rightarrow> expr \<Rightarrow> Context" where
  "bindAt c i tok e =
     c\<lparr>scope := (scope c)[i := (scope c ! i)\<lparr>vars := (vars (scope c ! i))(tok \<mapsto> e)\<rparr>]\<rparr>"

definition set' :: "Context \<Rightarrow> token \<Rightarrow> expr \<Rightarrow> signal + Context" where
  "set' c tok e =
     (case notConst tok of
        Inl s \<Rightarrow> Inl s
      | Inr _ \<Rightarrow>
          (case getScope c tok of
             Inl s \<Rightarrow> Inl s
           | Inr i \<Rightarrow> Inr (bindAt c i tok e)))"

definition setLocal :: "Context \<Rightarrow> token \<Rightarrow> expr \<Rightarrow> signal + Context" where
  "setLocal c tok e =
     (case notConst tok of
        Inl s \<Rightarrow> Inl s
      | Inr _ \<Rightarrow>
          if scope c = [] then Inl RuntimePanic
          else Inr (bindAt c (length (scope c) - 1) tok e))"

text \<open>Reading a Go map at a missing key gives the zero value, the nil \<open>*Expr\<close>.\<close>

definition get :: "Context \<Rightarrow> token \<Rightarrow> signal + expr" where
  "get c tok =
     (if tok_typ tok = tokenNumber then Inr (atomExpr tok)
      else
        (case getScope c tok of
           Inl s \<Rightarrow> Inl s
         | Inr i \<Rightarrow> Inr (case vars (scope c ! i) tok of None \<Rightarrow> Nil | Some v \<Rightarrow> v)))"

definition NewContext :: "64 word \<Rightarrow> Context" where
  "NewContext depth =
     \<lparr>scope = [\<lparr>vars = [tokT \<mapsto> constT, tokF \<mapsto> constF, tokNil \<mapsto> constNIL],
                 fn = top, args = Nil\<rparr>],
      stackDepth = 0,
      maxStackDepth = depth\<rparr>"

subsection \<open>Elementary functions\<close>

datatype elemFunc =
    ElemAdd | ElemAnd | ElemApply | ElemAtom | ElemCar | ElemCdr | ElemCons | ElemDefn
  | ElemDiv | ElemEq | ElemGe | ElemGt | ElemLe | ElemList | ElemLt | ElemMul | ElemNe
  | ElemNull | ElemOr | ElemRem | ElemSub | ElemCadr

definition elementary :: "token \<rightharpoonup> elemFunc" where
  "elementary =
     [tokAdd \<mapsto> ElemAdd, tokAnd \<mapsto> ElemAnd, tokApply \<mapsto> ElemApply, tokAtom \<mapsto> ElemAtom,
      tokCar \<mapsto> ElemCar, tokCdr \<mapsto> ElemCdr, tokCons \<mapsto> ElemCons, tokDefn \<mapsto> ElemDefn,
      tokDiv \<mapsto> ElemDiv, tokEq \<mapsto> ElemEq, tokGe \<mapsto> ElemGe, tokGt \<mapsto> ElemGt,
      tokLe \<mapsto> ElemLe, tokList \<mapsto> ElemList, tokLt \<mapsto> ElemLt, tokMul \<mapsto> ElemMul,
      tokNe \<mapsto> ElemNe, tokNull \<mapsto> ElemNull, tokOr \<mapsto> ElemOr, tokRem \<mapsto> ElemRem,
      tokSub \<mapsto> ElemSub]"

definition lookupElementary :: "token \<Rightarrow> elemFunc option" where
  "lookupElementary name =
     (case elementary name of
        Some f \<Rightarrow> Some f
      | None \<Rightarrow> if isCadR (tok_text name) then Some ElemCadr else None)"

definition atomFunc :: "expr \<Rightarrow> expr" where
  "atomFunc e = (let atom = Car e in truthExpr (atom \<noteq> Nil \<and> getAtom atom \<noteq> None))"

definition carFunc :: "expr \<Rightarrow> expr" where
  "carFunc e = Car (Car e)"

definition cdrFunc :: "expr \<Rightarrow> expr" where
  "cdrFunc e = Cdr (Car e)"

definition consFunc :: "expr \<Rightarrow> expr" where
  "consFunc e = Cons (Car e) (Car (Cdr e))"

fun eq :: "expr \<Rightarrow> expr \<Rightarrow> bool" where
  "eq Nil b = (b = Nil)"
| "eq a Nil = False"
| "eq (Atom a) (Atom b) =
     (if tok_typ a \<noteq> tok_typ b then False
      else if tok_typ a = tokenNumber then tok_num a = tok_num b
      else a = b)"
| "eq a b = False"

definition eqFunc :: "expr \<Rightarrow> expr" where
  "eqFunc e = (let a = Car e; b = Car (Cdr e) in truthExpr (eq a b))"

fun listFunc :: "expr \<Rightarrow> expr" where
  "listFunc Nil = Nil"
| "listFunc e = Cons (Car e) (Cdr e)"

definition nullFunc :: "expr \<Rightarrow> expr" where
  "nullFunc e = truthExpr (Car e = Nil)"

fun isNumber :: "expr \<Rightarrow> bool" where
  "isNumber (Atom t) = (tok_typ t = tokenNumber)"
| "isNumber e = False"

fun getNumber :: "expr \<Rightarrow> signal + int" where
  "getNumber (Atom t) =
     (if tok_typ t = tokenNumber then Inr (tok_num t) else Inl (Error (ExpectNumber (Atom t))))"
| "getNumber e = Inl (Error (ExpectNumber e))"

text \<open>\<open>big.Int.Div\<close> is Euclidean division, \<open>big.Int.Rem\<close> the truncated remainder.\<close>

definition add :: "int \<Rightarrow> int \<Rightarrow> signal + int" where
  "add a b = Inr (a + b)"

definition div' :: "int \<Rightarrow> int \<Rightarrow> signal + int" where
  "div' a b =
     (if b = 0 then Inl (Error DivisionByZero)
      else Inr (if 0 < b then a div b else - (a div (- b))))"

definition mul :: "int \<Rightarrow> int \<Rightarrow> signal + int" where
  "mul a b = Inr (a * b)"

definition rem' :: "int \<Rightarrow> int \<Rightarrow> signal + int" where
  "rem' a b =
     (if b = 0 then Inl (Error RemByZero)
      else Inr (sgn a * (\<bar>a\<bar> mod \<bar>b\<bar>)))"

definition sub :: "int \<Rightarrow> int \<Rightarrow> signal + int" where
  "sub a b = Inr (a - b)"

definition mathFunc :: "expr \<Rightarrow> (int \<Rightarrow> int \<Rightarrow> signal + int) \<Rightarrow> signal + expr" where
  "mathFunc e f =
     (case getNumber (Car e) of
        Inl s \<Rightarrow> Inl s
      | Inr a \<Rightarrow>
          (case getNumber (Car (Cdr e)) of
             Inl s \<Rightarrow> Inl s
           | Inr b \<Rightarrow>
               (case f a b of
                  Inl s \<Rightarrow> Inl s
                | Inr r \<Rightarrow> Inr (atomExpr (number r)))))"

definition boolFunc :: "expr \<Rightarrow> (int \<Rightarrow> int \<Rightarrow> bool) \<Rightarrow> signal + expr" where
  "boolFunc e f =
     (case getNumber (Car e) of
        Inl s \<Rightarrow> Inl s
      | Inr a \<Rightarrow>
          (case getNumber (Car (Cdr e)) of
             Inl s \<Rightarrow> Inl s
           | Inr b \<Rightarrow> Inr (truthExpr (f a b))))"

definition ge :: "int \<Rightarrow> int \<Rightarrow> bool" where "ge a b = (a \<ge> b)"
definition gt :: "int \<Rightarrow> int \<Rightarrow> bool" where "gt a b = (a > b)"
definition le :: "int \<Rightarrow> int \<Rightarrow> bool" where "le a b = (a \<le> b)"
definition lt :: "int \<Rightarrow> int \<Rightarrow> bool" where "lt a b = (a < b)"
definition ne :: "int \<Rightarrow> int \<Rightarrow> bool" where "ne a b = (a \<noteq> b)"

text \<open>On an atom, \<open>Car\<close> and \<open>Cdr\<close> give nil: \<open>andFunc\<close> stops at once and
  \<open>orFunc\<close> recurses on nil.\<close>

fun andFunc :: "expr \<Rightarrow> expr" where
  "andFunc Nil = truthExpr True"
| "andFunc (Atom t) = truthExpr False"
| "andFunc (Pair a d) = (if \<not> isTrue a then truthExpr False else andFunc d)"

fun orFunc :: "expr \<Rightarrow> expr" where
  "orFunc Nil = truthExpr False"
| "orFunc (Atom t) = truthExpr False"
| "orFunc (Pair a d) = (if isTrue a then truthExpr True else orFunc d)"

text \<open>The loop of \<open>defnFunc\<close> over the list of definitions, and the list of names it
  returns.\<close>

fun defnLoop :: "Context \<Rightarrow> expr \<Rightarrow> expr list \<Rightarrow> (signal + expr list) \<times> Context" where
  "defnLoop c Nil names = (Inr names, c)"
| "defnLoop c (Atom t) names = (Inl (Error EmptyFunctionInDefn), c)"
| "defnLoop c (Pair f rest) names =
     (if f = Nil then (Inl (Error EmptyFunctionInDefn), c)
      else
        let name = Car f in
        (case getAtom name of
           None \<Rightarrow> (Inl (Error MalformedDefn), c)
         | Some atom \<Rightarrow>
             (case set' c atom (Car (Cdr f)) of
                Inl s \<Rightarrow> (Inl s, c)
              | Inr c' \<Rightarrow> defnLoop c' rest (names @ [name]))))"

definition defnFunc :: "Context \<Rightarrow> expr \<Rightarrow> (signal + expr) \<times> Context" where
  "defnFunc c e =
     (case defnLoop c (Car e) [] of
        (Inl s, c') \<Rightarrow> (Inl s, c')
      | (Inr names, c') \<Rightarrow> (Inr (foldr Cons names Nil), c'))"

text \<open>Every elementary but \<open>apply\<close>, which re-enters the evaluator.\<close>

definition callElem :: "elemFunc \<Rightarrow> Context \<Rightarrow> token \<Rightarrow> expr \<Rightarrow> (signal + expr) \<times> Context" where
  "callElem f c name e =
     (case f of
        ElemAdd \<Rightarrow> (mathFunc e add, c)
      | ElemAnd \<Rightarrow> (Inr (andFunc e), c)
      | ElemAtom \<Rightarrow> (Inr (atomFunc e), c)
      | ElemCar \<Rightarrow> (Inr (carFunc e), c)
      | ElemCdr \<Rightarrow> (Inr (cdrFunc e), c)
      | ElemCons \<Rightarrow> (Inr (consFunc e), c)
      | ElemDefn \<Rightarrow> defnFunc c e
      | ElemDiv \<Rightarrow> (mathFunc e div', c)
      | ElemEq \<Rightarrow> (Inr (eqFunc e), c)
      | ElemGe \<Rightarrow> (boolFunc e ge, c)
      | ElemGt \<Rightarrow> (boolFunc e gt, c)
      | ElemLe \<Rightarrow> (boolFunc e le, c)
      | ElemList \<Rightarrow> (Inr (listFunc e), c)
      | ElemLt \<Rightarrow> (boolFunc e lt, c)
      | ElemMul \<Rightarrow> (mathFunc e mul, c)
      | ElemNe \<Rightarrow> (boolFunc e ne, c)
      | ElemNull \<Rightarrow> (Inr (nullFunc e), c)
      | ElemOr \<Rightarrow> (Inr (orFunc e), c)
      | ElemRem \<Rightarrow> (mathFunc e rem', c)
      | ElemSub \<Rightarrow> (mathFunc e sub, c)
      | ElemCadr \<Rightarrow> (Inr (cadrFunc name e), c)
      | ElemApply \<Rightarrow> (Inl RuntimePanic, c))"

subsection \<open>apply, eval, evcon, evlis\<close>

fun length' :: "expr \<Rightarrow> nat" where
  "length' Nil = 0"
| "length' (Atom t) = 1"
| "length' (Pair a d) = 1 + length' d"

text \<open>\<open>okToCall\<close>: the error message interns \<open>name\<close> as an atom only to print it.\<close>

definition okToCall :: "Context \<Rightarrow> gostring \<Rightarrow> expr \<Rightarrow> expr \<Rightarrow> (signal + unit) \<times> Context" where
  "okToCall c name f x =
     (if f = Nil then (Inl (Error (Undefined name x)), c)
      else if 0 <s maxStackDepth c then
        let c1 = c\<lparr>stackDepth := stackDepth c + 1\<rparr> in
        if maxStackDepth c1 <s stackDepth c1
        then (Inl (Error StackTooDeep), push c1 name x)
        else (Inr (), c1)
      else (Inr (), c))"

text \<open>The loop of \<open>apply\<close> that binds the formals in the new frame.\<close>

fun bindArgs :: "Context \<Rightarrow> expr \<Rightarrow> expr \<Rightarrow> (signal + unit) \<times> Context" where
  "bindArgs c Nil formals = (Inr (), c)"
| "bindArgs c (Atom t) formals =
     (case getAtom (Car formals) of
        None \<Rightarrow> (Inl (Error NoAtom), c)
      | Some atom \<Rightarrow>
          (case setLocal c atom Nil of
             Inl s \<Rightarrow> (Inl s, c)
           | Inr c' \<Rightarrow> (Inr (), c')))"
| "bindArgs c (Pair a d) formals =
     (case getAtom (Car formals) of
        None \<Rightarrow> (Inl (Error NoAtom), c)
      | Some atom \<Rightarrow>
          (case setLocal c atom a of
             Inl s \<Rightarrow> (Inl s, c)
           | Inr c' \<Rightarrow> bindArgs c' d (Cdr formals)))"

text \<open>
  The four mutually recursive functions of page 13, with \<open>applyFunc\<close>, which re-enters
  \<open>apply\<close>. A Lisp program need not terminate, so the evaluator takes fuel: every call
  of one of the five costs one unit and \<open>None\<close> means the fuel ran out. A result carries
  the context as the call left it, also when the call panicked. The five are one
  function \<open>run\<close> over the call being made; \<open>apply'\<close>, \<open>applyFunc\<close>, \<open>eval\<close>,
  \<open>evcon\<close> and \<open>evlis\<close> are its five entries, and their equations in the shape of the
  source are the lemmas \<open>apply'_Suc\<close>, \<open>applyFunc_Suc\<close>, \<open>eval_Suc\<close>,
  \<open>evcon_Suc\<close> and \<open>evlis_Suc\<close>.
\<close>

type_synonym result = "((signal + expr) \<times> Context) option"

datatype call =
    ApplyCall gostring expr expr
  | ApplyFuncCall token expr
  | EvalCall expr
  | EvconCall expr
  | EvlisCall expr

primrec run :: "nat \<Rightarrow> call \<Rightarrow> Context \<Rightarrow> result" where
  "run 0 k c = None"
| "run (Suc n) k c =
    (case k of
      ApplyCall name f x \<Rightarrow>
     (case okToCall c name f x of
        (Inl s, c1) \<Rightarrow> Some (Inl s, c1)
      | (Inr _, c1) \<Rightarrow>
          (case f of
             Nil \<Rightarrow> Some (Inl RuntimePanic, c1)
           | Atom a \<Rightarrow>
               (case lookupElementary a of
                  Some elem \<Rightarrow>
                    if elem = ElemApply then run n (ApplyFuncCall a x) c1
                    else Some (callElem elem c1 a x)
                | None \<Rightarrow>
                    if tok_typ a \<noteq> tokenAtom then Some (Inl (Error (NotAFunction f)), c1)
                    else
                      (case run n (EvalCall f) c1 of
                         None \<Rightarrow> None
                       | Some (Inl s, c2) \<Rightarrow> Some (Inl s, c2)
                       | Some (Inr v, c2) \<Rightarrow> run n (ApplyCall name v x) c2))
           | Pair fa fd \<Rightarrow>
               if getAtom (Car f) = Some tokLambda \<or> getAtom (Car f) = Some tokASCIILambda
               then
                 let args = x; formals = Car (Cdr f) in
                 if length' args \<noteq> length' formals
                 then Some (Inl (Error (ArgsMismatch name formals args)), c1)
                 else
                   (case bindArgs (push c1 name args) args formals of
                      (Inl s, c2) \<Rightarrow> Some (Inl s, c2)
                    | (Inr _, c2) \<Rightarrow>
                        (case run n (EvalCall (Car (Cdr (Cdr f)))) c2 of
                           None \<Rightarrow> None
                         | Some (Inl s, c3) \<Rightarrow> Some (Inl s, c3)
                         | Some (Inr v, c3) \<Rightarrow>
                             (case pop c3 of
                                Inl s \<Rightarrow> Some (Inl s, c3)
                              | Inr c4 \<Rightarrow> Some (Inr v, c4))))
               else Some (Inl (Error (ApplyFailed name x)), c1)))
    | ApplyFuncCall name e \<Rightarrow> run n (ApplyCall (runes ''applyFunc'') (Car e) (Cdr e)) c
    | EvalCall e \<Rightarrow>
     (if e = Nil then Some (Inr Nil, c)
      else
        (case getAtom e of
           Some atom \<Rightarrow>
             (case get c atom of
                Inl s \<Rightarrow> Some (Inl s, c)
              | Inr v \<Rightarrow> Some (Inr v, c))
         | None \<Rightarrow>
             (case getAtom (Car e) of
                Some atom \<Rightarrow>
                  if atom = tokQuote then Some (Inr (Car (Cdr e)), c)
                  else if atom = tokCond then run n (EvconCall (Cdr e)) c
                  else
                    (case run n (EvlisCall (Cdr e)) c of
                       None \<Rightarrow> None
                     | Some (Inl s, c1) \<Rightarrow> Some (Inl s, c1)
                     | Some (Inr vs, c1) \<Rightarrow> run n (ApplyCall (tok_text atom) (Car e) vs) c1)
              | None \<Rightarrow> Some (Inl (Error (CannotEval e)), c))))
    | EvconCall x \<Rightarrow>
     (if x = Nil then Some (Inl (Error NoTrueCaseInCond), c)
      else
        (case run n (EvalCall (Car (Car x))) c of
           None \<Rightarrow> None
         | Some (Inl s, c1) \<Rightarrow> Some (Inl s, c1)
         | Some (Inr v, c1) \<Rightarrow>
             if isTrue v then run n (EvalCall (Car (Cdr (Car x)))) c1
             else run n (EvconCall (Cdr x)) c1))
    | EvlisCall m \<Rightarrow>
     (if m = Nil then Some (Inr Nil, c)
      else
        (case run n (EvalCall (Car m)) c of
           None \<Rightarrow> None
         | Some (Inl s, c1) \<Rightarrow> Some (Inl s, c1)
         | Some (Inr v, c1) \<Rightarrow>
             (case run n (EvlisCall (Cdr m)) c1 of
                None \<Rightarrow> None
              | Some (Inl s, c2) \<Rightarrow> Some (Inl s, c2)
              | Some (Inr vs, c2) \<Rightarrow> Some (Inr (Cons v vs), c2)))))"

definition apply' :: "nat \<Rightarrow> Context \<Rightarrow> gostring \<Rightarrow> expr \<Rightarrow> expr \<Rightarrow> result" where
  "apply' n c name f x = run n (ApplyCall name f x) c"

definition applyFunc :: "nat \<Rightarrow> Context \<Rightarrow> token \<Rightarrow> expr \<Rightarrow> result" where
  "applyFunc n c name e = run n (ApplyFuncCall name e) c"

definition eval :: "nat \<Rightarrow> Context \<Rightarrow> expr \<Rightarrow> result" where
  "eval n c e = run n (EvalCall e) c"

definition evcon :: "nat \<Rightarrow> Context \<Rightarrow> expr \<Rightarrow> result" where
  "evcon n c x = run n (EvconCall x) c"

definition evlis :: "nat \<Rightarrow> Context \<Rightarrow> expr \<Rightarrow> result" where
  "evlis n c m = run n (EvlisCall m) c"

definition Eval :: "nat \<Rightarrow> Context \<Rightarrow> expr \<Rightarrow> result" where
  "Eval n c e =
     (case getAtom e of
        Some a \<Rightarrow>
          if lookupElementary a \<noteq> None then Some (Inl (Error (IsElementary a)), c)
          else
            (case get c a of
               Inl s \<Rightarrow> Some (Inl s, c)
             | Inr v \<Rightarrow> Some (Inr v, c))
      | None \<Rightarrow>
          if getAtom (Car e) = Some tokDefn
          then apply' n c (runes ''defn'') (Car e) (Cdr e)
          else
            let lambda = Cons (atomExpr tokLambda) (Cons Nil (Cons e Nil)) in
            apply' n c top lambda Nil)"

section \<open>The lexer (lex.go)\<close>

definition EofRune :: rune where
  "EofRune = - 1"

text \<open>
  The reader is the list of runes it has still to deliver. \<open>atoms\<close> is the table of
  interned tokens, a variable of the package, carried in the record of the lexer that
  reads and updates it.
\<close>

record lexer =
  rd :: "rune list"
  peeking :: bool
  peekRune :: rune
  last' :: rune
  buf :: gostring
  atoms :: "gostring \<rightharpoonup> token"

text \<open>
  \<open>(*big.Int).SetString(text, 0)\<close> of the Go library, on the texts the lexer can pass (an
  optional sign and digits) and on the base prefixes: after the sign, \<open>0x\<close>, \<open>0b\<close> and
  \<open>0o\<close> select bases 16, 2 and 8, a leading \<open>0\<close> that is followed by more selects base 8,
  anything else base 10; every rune left must be a digit of the base and there must be
  one at least. The underscores that base 0 also allows between digits are left out.
\<close>

definition digitVal :: "rune \<Rightarrow> nat option" where
  "digitVal r =
     (if of_char CHR ''0'' \<le> r \<and> r \<le> of_char CHR ''9'' then Some (nat (r - of_char CHR ''0''))
      else if of_char CHR ''a'' \<le> r \<and> r \<le> of_char CHR ''z''
        then Some (nat (r - of_char CHR ''a'') + 10)
      else if of_char CHR ''A'' \<le> r \<and> r \<le> of_char CHR ''Z''
        then Some (nat (r - of_char CHR ''A'') + 10)
      else None)"

fun scanDigits :: "nat \<Rightarrow> rune list \<Rightarrow> nat \<Rightarrow> nat option" where
  "scanDigits b [] acc = Some acc"
| "scanDigits b (r # rs) acc =
     (case digitVal r of
        None \<Rightarrow> None
      | Some d \<Rightarrow> if d < b then scanDigits b rs (acc * b + d) else None)"

definition scanBase :: "nat \<Rightarrow> rune list \<Rightarrow> nat option" where
  "scanBase b s = (if s = [] then None else scanDigits b s 0)"

definition natSetString0 :: "gostring \<Rightarrow> nat option" where
  "natSetString0 s =
     (if s \<noteq> [] \<and> hd s = of_char CHR ''0'' \<and> 1 < length s then
        (let c = s ! 1 in
         if c = of_char CHR ''x'' \<or> c = of_char CHR ''X'' then scanBase 16 (drop 2 s)
         else if c = of_char CHR ''b'' \<or> c = of_char CHR ''B'' then scanBase 2 (drop 2 s)
         else if c = of_char CHR ''o'' \<or> c = of_char CHR ''O'' then scanBase 8 (drop 2 s)
         else scanBase 8 (drop 1 s))
      else scanBase 10 s)"

definition SetString0 :: "gostring \<Rightarrow> int option" where
  "SetString0 s =
     (case s of
        [] \<Rightarrow> None
      | c # rest \<Rightarrow>
          if c = of_char CHR ''-'' then map_option (\<lambda>n. - int n) (natSetString0 rest)
          else if c = of_char CHR ''+'' then map_option int (natSetString0 rest)
          else map_option int (natSetString0 s))"

definition mkToken ::
  "(gostring \<rightharpoonup> token) \<Rightarrow> TokType \<Rightarrow> gostring \<Rightarrow> (signal + token) \<times> (gostring \<rightharpoonup> token)" where
  "mkToken tbl ty s =
     (if ty = tokenNumber then
        (case SetString0 s of
           None \<Rightarrow> (Inl (Error (BadNumberSyntax s)), tbl)
         | Some n \<Rightarrow> (Inr (number n), tbl))
      else
        (case tbl s of
           Some tok \<Rightarrow> (Inr tok, tbl)
         | None \<Rightarrow>
             (let tok = \<lparr>tok_typ = ty, tok_text = s, tok_num = 0\<rparr>
              in (Inr tok, tbl(s \<mapsto> tok)))))"

text \<open>The table once the package is initialised: the constants and the reserved names.\<close>

definition predefined :: "token list" where
  "predefined =
     [tokF, tokT, tokNil, tokAdd, tokAnd, tokApply, tokAtom, tokCar, tokCdr, tokCond,
      tokCons, tokDefn, tokDiv, tokEq, tokGe, tokASCIILambda, tokGt, tokLambda, tokLe,
      tokList, tokLt, tokMul, tokNe, tokOr, tokNull, tokQuote, tokRem, tokSub]"

definition initAtoms :: "gostring \<rightharpoonup> token" where
  "initAtoms = map_of (map (\<lambda>t. (tok_text t, t)) predefined)"

definition newLexer :: "(gostring \<rightharpoonup> token) \<Rightarrow> rune list \<Rightarrow> lexer" where
  "newLexer tbl input =
     \<lparr>rd = input, peeking = False, peekRune = 0, last' = 0, buf = [], atoms = tbl\<rparr>"

text \<open>\<open>mkToken\<close> on the lexer's table.\<close>

definition lexToken :: "lexer \<Rightarrow> TokType \<Rightarrow> gostring \<Rightarrow> (signal + token) \<times> lexer" where
  "lexToken l ty s = (case mkToken (atoms l) ty s of (r, tbl) \<Rightarrow> (r, l\<lparr>atoms := tbl\<rparr>))"

definition nextRune :: "lexer \<Rightarrow> rune \<times> lexer" where
  "nextRune l =
     (case rd l of
        [] \<Rightarrow> (EofRune, l\<lparr>last' := EofRune\<rparr>)
      | r # rs \<Rightarrow> (r, l\<lparr>rd := rs, last' := r\<rparr>))"

definition read :: "lexer \<Rightarrow> rune \<times> lexer" where
  "read l = (if peeking l then (peekRune l, l\<lparr>peeking := False\<rparr>) else nextRune l)"

definition peek :: "lexer \<Rightarrow> rune \<times> lexer" where
  "peek l =
     (if peeking l then (peekRune l, l)
      else (case read l of (r, l1) \<Rightarrow> (r, l1\<lparr>peeking := True, peekRune := r\<rparr>)))"

definition back' :: "lexer \<Rightarrow> rune \<Rightarrow> lexer" where
  "back' l r = l\<lparr>peeking := True, peekRune := r\<rparr>"

definition isSpace :: "rune \<Rightarrow> bool" where
  "isSpace r \<longleftrightarrow>
     r = of_char CHR '' '' \<or> r = 9 \<or> r = 10 \<or> r = 13"

definition isNumber' :: "rune \<Rightarrow> bool" where
  "isNumber' r \<longleftrightarrow> of_char CHR ''0'' \<le> r \<and> r \<le> of_char CHR ''9''"

text \<open>\<open>unicode.IsLetter\<close>, a table of the Go library, is the parameter \<open>isL\<close> of the
  lexer and of the parser.\<close>

definition isAlphanum :: "(rune \<Rightarrow> bool) \<Rightarrow> rune \<Rightarrow> bool" where
  "isAlphanum isL r \<longleftrightarrow> r = of_char CHR ''_'' \<or> isNumber' r \<or> isL r"

text \<open>What the lexer has still to read: the rune it holds back, then the reader's.\<close>

definition pending :: "lexer \<Rightarrow> nat" where
  "pending l = length (rd l) + (if peeking l then 1 else 0)"

lemma pending_read:
  "(r, l1) = read l \<Longrightarrow>
     r = EofRune \<or> (pending l1 < pending l \<and> length (rd l1) < pending l)"
  by (cases "rd l") (auto simp: pending_def read_def nextRune_def split: if_splits)

lemma pending_buf: "pending (l\<lparr>buf := b\<rparr>) = pending l"
  by (simp add: pending_def)

function skipSpaceLoop :: "bool \<Rightarrow> lexer \<Rightarrow> rune \<times> lexer" where
  "skipSpaceLoop comment l =
     (case read l of (r, l1) \<Rightarrow>
        if r = 10 \<or> r = EofRune then (r, l1)
        else if r = of_char CHR '';'' then skipSpaceLoop True l1
        else if \<not> comment \<and> \<not> isSpace r then (r, back' l1 r)
        else skipSpaceLoop comment l1)"
  by pat_completeness auto
termination
  by (relation "measure (\<lambda>(comment, l). pending l)")
    (auto dest!: pending_read simp: EofRune_def)

declare skipSpaceLoop.simps [simp del]

definition skipSpace :: "lexer \<Rightarrow> rune \<times> lexer" where
  "skipSpace l = skipSpaceLoop False l"

function skipToNewlineLoop :: "lexer \<Rightarrow> lexer" where
  "skipToNewlineLoop l =
     (if last' l \<noteq> 10 \<and> last' l \<noteq> EofRune then skipToNewlineLoop (snd (nextRune l))
      else l)"
  by pat_completeness auto
termination
  by (relation "measure (\<lambda>l. length (rd l) +
        (if last' l \<noteq> 10 \<and> last' l \<noteq> EofRune then 1 else 0))")
    (auto simp: nextRune_def split: list.splits)

declare skipToNewlineLoop.simps [simp del]

definition skipToNewline :: "lexer \<Rightarrow> lexer" where
  "skipToNewline l = (skipToNewlineLoop l)\<lparr>peeking := False\<rparr>"

function accumLoop :: "(rune \<Rightarrow> bool) \<Rightarrow> lexer \<Rightarrow> rune \<Rightarrow> lexer" where
  "accumLoop valid l r =
     (case read (l\<lparr>buf := buf l @ [r]\<rparr>) of (r', l1) \<Rightarrow>
        if r' = EofRune then l1
        else if \<not> valid r' then back' l1 r'
        else accumLoop valid l1 r')"
  by pat_completeness auto
termination
  by (relation "measure (\<lambda>(valid, l, r). pending l)")
    (auto dest!: pending_read simp: pending_buf)

declare accumLoop.simps [simp del]

definition accum :: "(rune \<Rightarrow> bool) \<Rightarrow> lexer \<Rightarrow> rune \<Rightarrow> lexer" where
  "accum valid l r = accumLoop valid (l\<lparr>buf := []\<rparr>) r"

definition endToken :: "(rune \<Rightarrow> bool) \<Rightarrow> lexer \<Rightarrow> (signal + unit) \<times> lexer" where
  "endToken isL l =
     (case peek l of (r, l1) \<Rightarrow>
        if isAlphanum isL r \<or>
           \<not> isSpace r \<and> r \<noteq> of_char CHR ''('' \<and> r \<noteq> of_char CHR '')'' \<and>
             r \<noteq> of_char CHR ''.'' \<and> r \<noteq> EofRune
        then (Inl (Error (InvalidTokenAfter (buf l1))), l1)
        else (Inr (), l1))"

definition lexNumber :: "(rune \<Rightarrow> bool) \<Rightarrow> lexer \<Rightarrow> rune \<Rightarrow> (signal + token) \<times> lexer" where
  "lexNumber isL l r =
     (case endToken isL (accum isNumber' l r) of
        (Inl s, l1) \<Rightarrow> (Inl s, l1)
      | (Inr _, l1) \<Rightarrow> lexToken l1 tokenNumber (buf l1))"

definition alphanum ::
  "(rune \<Rightarrow> bool) \<Rightarrow> lexer \<Rightarrow> TokType \<Rightarrow> rune \<Rightarrow> (signal + token) \<times> lexer" where
  "alphanum isL l ty r =
     (case endToken isL (accum (isAlphanum isL) l r) of
        (Inl s, l1) \<Rightarrow> (Inl s, l1)
      | (Inr _, l1) \<Rightarrow> lexToken l1 ty (buf l1))"

lemma skipToNewlineLoop_rd: "length (rd (skipToNewlineLoop l)) \<le> length (rd l)"
proof (induction l rule: skipToNewlineLoop.induct)
  case (1 l)
  show ?case
  proof (cases "last' l \<noteq> 10 \<and> last' l \<noteq> EofRune")
    case True
    then have "length (rd (skipToNewlineLoop l)) \<le> length (rd (snd (nextRune l)))"
      using "1.IH" by (subst skipToNewlineLoop.simps) simp
    also have "\<dots> \<le> length (rd l)"
      by (simp add: nextRune_def split: list.splits)
    finally show ?thesis .
  next
    case False
    then show ?thesis by (subst skipToNewlineLoop.simps) auto
  qed
qed

lemma pending_skipToNewline: "pending (skipToNewline l) \<le> length (rd l)"
  using skipToNewlineLoop_rd [of l] by (simp add: pending_def skipToNewline_def)

text \<open>\<open>(l *lexer) next\<close>. The cases of the switch are tried in the order of the source:
  a newline is a space, so the case that would make a newline token is never reached.\<close>

function lexNext :: "(rune \<Rightarrow> bool) \<Rightarrow> lexer \<Rightarrow> (signal + token) \<times> lexer" where
  "lexNext isL l =
     (case read l of (r, l1) \<Rightarrow>
        if isSpace r then lexNext isL l1
        else if r = of_char CHR '';'' then lexNext isL (skipToNewline l1)
        else if r = EofRune then lexToken l1 TokenEOF (runes ''EOF'')
        else if r = 10 then lexToken l1 tokenNewline [10]
        else if r = of_char CHR ''('' then lexToken l1 tokenLpar (runes ''('')
        else if r = of_char CHR '')'' then lexToken l1 tokenRpar (runes '')'')
        else if r = of_char CHR ''.'' then lexToken l1 tokenDot (runes ''.'')
        else if r = of_char CHR ''-'' \<or> r = of_char CHR ''+'' then
          (case peek l1 of (p, l2) \<Rightarrow>
             if \<not> isNumber' p then lexToken l2 tokenChar [r]
             else lexNumber isL l2 r)
        else if isNumber' r then lexNumber isL l1 r
        else if r = 39 then lexToken l1 tokenQuote [39]
        else if r = of_char CHR ''_'' \<or> isL r then alphanum isL l1 tokenAtom r
        else lexToken l1 tokenChar [r])"
  by pat_completeness (erule Pair_inject, hypsubst, rule refl)
termination
proof (relation "measure (\<lambda>(isL, l). pending l)", goal_cases)
  case 1
  show ?case by simp
next
  case (2 isL l x y)
  from pending_read [OF 2(1)] 2(2) have "pending y < pending l"
    by (auto simp: isSpace_def EofRune_def)
  then show ?case by simp
next
  case (3 isL l x y)
  from pending_read [OF 3(1)] 3(3) have "length (rd y) < pending l"
    by (auto simp: EofRune_def)
  with pending_skipToNewline [of y] have "pending (skipToNewline y) < pending l"
    by linarith
  then show ?case by simp
qed

declare lexNext.simps [simp del]

section \<open>The parser (parse.go)\<close>

record Parser =
  lex :: lexer
  peekTok :: "token option"

definition NewParser :: "(gostring \<rightharpoonup> token) \<Rightarrow> rune list \<Rightarrow> Parser" where
  "NewParser tbl r = \<lparr>lex = newLexer tbl r, peekTok = None\<rparr>"

definition parserNext :: "(rune \<Rightarrow> bool) \<Rightarrow> Parser \<Rightarrow> (signal + token) \<times> Parser" where
  "parserNext isL p =
     (case peekTok p of
        Some tok \<Rightarrow> (Inr tok, p\<lparr>peekTok := None\<rparr>)
      | None \<Rightarrow> (case lexNext isL (lex p) of (r, l) \<Rightarrow> (r, p\<lparr>lex := l\<rparr>)))"

definition parserBack :: "Parser \<Rightarrow> token \<Rightarrow> Parser" where
  "parserBack p tok = p\<lparr>peekTok := Some tok\<rparr>"

definition isAtomTok :: "token \<Rightarrow> bool" where
  "isAtomTok tok \<longleftrightarrow>
     tok_typ tok = tokenAtom \<or> tok_typ tok = tokenConst \<or> tok_typ tok = tokenNumber"

text \<open>
  \<open>SExpr\<close>, \<open>quote\<close>, \<open>List\<close> and \<open>lparList\<close> call each other, each call after
  the parser has read a token or for a token that was put back. They are one function
  \<open>parse\<close> over the call being made, with fuel: every call costs one unit and \<open>None\<close>
  means the fuel ran out. \<open>log.Fatal\<close> ends the process; the model returns \<open>LogFatal\<close>
  with the message and the token found.
\<close>

datatype pcall = SExprCall | QuoteCall | ListCall | LparListCall

type_synonym presult = "((signal + expr) \<times> Parser) option"

primrec parse :: "(rune \<Rightarrow> bool) \<Rightarrow> nat \<Rightarrow> pcall \<Rightarrow> Parser \<Rightarrow> presult" where
  "parse isL 0 k p = None"
| "parse isL (Suc n) k p =
    (case k of
      SExprCall \<Rightarrow>
        (case parserNext isL p of
           (Inl s, p1) \<Rightarrow> Some (Inl s, p1)
         | (Inr tok, p1) \<Rightarrow>
             if tok_typ tok = TokenEOF then Some (Inr Nil, p1)
             else if tok_typ tok = tokenQuote then parse isL n QuoteCall p1
             else if isAtomTok tok then Some (Inr (atomExpr tok), p1)
             else if tok_typ tok = tokenLpar then
               (case parse isL n SExprCall p1 of
                  None \<Rightarrow> None
                | Some (Inl s, p2) \<Rightarrow> Some (Inl s, p2)
                | Some (Inr car, p2) \<Rightarrow>
                    (case parserNext isL p2 of
                       (Inl s, p3) \<Rightarrow> Some (Inl s, p3)
                     | (Inr dot, p3) \<Rightarrow>
                         if tok_typ dot \<noteq> tokenDot
                         then Some (Inl (LogFatal (runes ''expected dot, found '') dot), p3)
                         else
                           (case parse isL n SExprCall p3 of
                              None \<Rightarrow> None
                            | Some (Inl s, p4) \<Rightarrow> Some (Inl s, p4)
                            | Some (Inr cdr, p4) \<Rightarrow>
                                (case parserNext isL p4 of
                                   (Inl s, p5) \<Rightarrow> Some (Inl s, p5)
                                 | (Inr rpar, p5) \<Rightarrow>
                                     if tok_typ rpar \<noteq> tokenRpar
                                     then Some (Inl (LogFatal (runes ''expected rPar, found '') rpar), p5)
                                     else Some (Inr (Cons car cdr), p5)))))
             else Some (Inl (Error (BadTokenInSExpr tok)), p1))
    | QuoteCall \<Rightarrow>
        (case parse isL n ListCall p of
           None \<Rightarrow> None
         | Some (Inl s, p1) \<Rightarrow> Some (Inl s, p1)
         | Some (Inr x, p1) \<Rightarrow> Some (Inr (Cons (atomExpr tokQuote) (Cons x Nil)), p1))
    | ListCall \<Rightarrow>
        (case parserNext isL p of
           (Inl s, p1) \<Rightarrow> Some (Inl s, p1)
         | (Inr tok, p1) \<Rightarrow>
             if tok_typ tok = TokenEOF then Some (Inl EOF, p1)
             else if tok_typ tok = tokenQuote then parse isL n QuoteCall p1
             else if isAtomTok tok then Some (Inr (atomExpr tok), p1)
             else if tok_typ tok = tokenLpar then
               (case parse isL n LparListCall p1 of
                  None \<Rightarrow> None
                | Some (Inl s, p2) \<Rightarrow> Some (Inl s, p2)
                | Some (Inr e, p2) \<Rightarrow>
                    (case parserNext isL p2 of
                       (Inl s, p3) \<Rightarrow> Some (Inl s, p3)
                     | (Inr tok2, p3) \<Rightarrow>
                         if tok_typ tok2 = tokenRpar then Some (Inr e, p3)
                         else Some (Inl (Error (BadTokenInList tok2)), p3)))
             else Some (Inl (Error (BadTokenInList tok)), p1))
    | LparListCall \<Rightarrow>
        (case parserNext isL p of
           (Inl s, p1) \<Rightarrow> Some (Inl s, p1)
         | (Inr tok, p1) \<Rightarrow>
             if tok_typ tok = tokenQuote then
               (case parse isL n QuoteCall p1 of
                  None \<Rightarrow> None
                | Some (Inl s, p2) \<Rightarrow> Some (Inl s, p2)
                | Some (Inr q, p2) \<Rightarrow>
                    (case parse isL n LparListCall p2 of
                       None \<Rightarrow> None
                     | Some (Inl s, p3) \<Rightarrow> Some (Inl s, p3)
                     | Some (Inr rest, p3) \<Rightarrow> Some (Inr (Cons q rest), p3)))
             else if isAtomTok tok then
               (case parse isL n LparListCall p1 of
                  None \<Rightarrow> None
                | Some (Inl s, p2) \<Rightarrow> Some (Inl s, p2)
                | Some (Inr rest, p2) \<Rightarrow> Some (Inr (Cons (atomExpr tok) rest), p2))
             else if tok_typ tok = tokenDot then parse isL n ListCall p1
             else if tok_typ tok = tokenLpar then
               (case parse isL n ListCall (parserBack p1 tok) of
                  None \<Rightarrow> None
                | Some (Inl s, p2) \<Rightarrow> Some (Inl s, p2)
                | Some (Inr x, p2) \<Rightarrow>
                    (case parse isL n LparListCall p2 of
                       None \<Rightarrow> None
                     | Some (Inl s, p3) \<Rightarrow> Some (Inl s, p3)
                     | Some (Inr rest, p3) \<Rightarrow> Some (Inr (Cons x rest), p3)))
             else if tok_typ tok = tokenRpar then Some (Inr Nil, parserBack p1 tok)
             else Some (Inl (Error (BadTokenParsingList tok)), p1)))"

definition SExpr :: "(rune \<Rightarrow> bool) \<Rightarrow> nat \<Rightarrow> Parser \<Rightarrow> presult" where
  "SExpr isL n p = parse isL n SExprCall p"

definition quote :: "(rune \<Rightarrow> bool) \<Rightarrow> nat \<Rightarrow> Parser \<Rightarrow> presult" where
  "quote isL n p = parse isL n QuoteCall p"

definition List :: "(rune \<Rightarrow> bool) \<Rightarrow> nat \<Rightarrow> Parser \<Rightarrow> presult" where
  "List isL n p = parse isL n ListCall p"

definition lparList :: "(rune \<Rightarrow> bool) \<Rightarrow> nat \<Rightarrow> Parser \<Rightarrow> presult" where
  "lparList isL n p = parse isL n LparListCall p"

section \<open>The printer (parse.go, lex.go)\<close>

text \<open>\<open>fmt.Sprint\<close> of a \<open>*big.Int\<close>: its decimal digits, after a minus sign when it is
  negative.\<close>

function showNat :: "nat \<Rightarrow> gostring" where
  "showNat n =
     (if n < 10 then [of_char CHR ''0'' + int n]
      else showNat (n div 10) @ [of_char CHR ''0'' + int (n mod 10)])"
  by pat_completeness auto
termination
  by (relation "measure id") auto

declare showNat.simps [simp del]

definition showInt :: "int \<Rightarrow> gostring" where
  "showInt i = (if i < 0 then of_char CHR ''-'' # showNat (nat (- i)) else showNat (nat i))"

definition tokenString :: "token \<Rightarrow> gostring" where
  "tokenString t = (if tok_typ t = tokenNumber then showInt (tok_num t) else tok_text t)"

fun SExprString :: "expr \<Rightarrow> gostring" where
  "SExprString Nil = runes ''nil''"
| "SExprString (Atom t) = tokenString t"
| "SExprString (Pair a d) =
     runes ''('' @ SExprString a @ runes '' . '' @ SExprString d @ runes '')''"

lemma size_Car: "size (Car e) \<le> size e"
  by (cases e) simp_all

text \<open>\<open>buildString\<close> returns what the source appends to the builder; \<open>buildList\<close> is its
  loop over the elements of a list, entered with the \<open>car\<close> and \<open>cdr\<close> of \<open>e\<close>.\<close>

function buildString :: "expr \<Rightarrow> bool \<Rightarrow> gostring"
  and buildList :: "expr \<Rightarrow> expr \<Rightarrow> bool \<Rightarrow> gostring"
where
  "buildString Nil simplifyQuote = runes ''nil''"
| "buildString (Atom t) simplifyQuote = tokenString t"
| "buildString (Pair a d) simplifyQuote =
     (if simplifyQuote \<and> getAtom (Car (Pair a d)) = Some tokQuote
      then 39 # buildString (Car (Cdr (Pair a d))) simplifyQuote
      else runes ''('' @ buildList a d simplifyQuote @ runes '')'')"
| "buildList car cdr simplifyQuote =
     buildString car simplifyQuote @
       (case cdr of
          Nil \<Rightarrow> []
        | Atom t \<Rightarrow>
            if tok_text t = runes ''nil'' then []
            else runes '' . '' @ buildString cdr simplifyQuote
        | Pair a d \<Rightarrow> 32 # buildList a d simplifyQuote)"
  by pat_completeness auto
termination
proof (relation "measure (\<lambda>x. case x of
          Inl (e, q) \<Rightarrow> 2 * size e + 1
        | Inr (a, d, q) \<Rightarrow> 2 * (size a + size d) + 2)", goal_cases)
  case 1
  show ?case by simp
next
  case (2 a d simplifyQuote)
  show ?case using size_Car [of d] by simp
qed simp_all

declare buildString.simps(3) [simp del]
declare buildList.simps [simp del]

definition String :: "bool \<Rightarrow> expr \<Rightarrow> gostring" where
  "String printSExpr e =
     (if printSExpr then SExprString e
      else if e = Nil then runes ''nil''
      else buildString e True)"

section \<open>Notions used to state the properties of the lexer and the parser\<close>

text \<open>The lexer \<open>l\<close> has exactly the runes \<open>s\<close> still to read: either it holds no rune
  back and the reader has \<open>s\<close> left, or it holds back the first rune of \<open>s\<close> (the end of
  input when \<open>s\<close> is empty).\<close>

definition lexAt :: "lexer \<Rightarrow> rune list \<Rightarrow> bool" where
  "lexAt l s \<longleftrightarrow>
     (\<not> peeking l \<and> rd l = s) \<or>
     (peeking l \<and> peekRune l = EofRune \<and> s = [] \<and> rd l = []) \<or>
     (peeking l \<and> peekRune l \<noteq> EofRune \<and> s = peekRune l # rd l)"

text \<open>What the lexer needs of the table of letters, and \<open>unicode.IsLetter\<close> gives: the
  end-of-input mark, the spaces, the punctuation of the language, the signs, the
  underscore and the digits are no letters.\<close>

definition letterTable :: "(rune \<Rightarrow> bool) \<Rightarrow> bool" where
  "letterTable isL \<longleftrightarrow>
     \<not> isL EofRune \<and>
     (\<forall>r. isSpace r \<or> isNumber' r \<or> r = of_char CHR '';'' \<or> r = of_char CHR ''('' \<or>
          r = of_char CHR '')'' \<or> r = of_char CHR ''.'' \<or> r = of_char CHR ''-'' \<or>
          r = of_char CHR ''+'' \<or> r = 39 \<or> r = of_char CHR ''_'' \<longrightarrow> \<not> isL r)"

text \<open>What may follow a number or an identifier: the end of input, a space, a
  parenthesis or a dot.\<close>

definition endOK :: "rune list \<Rightarrow> bool" where
  "endOK rest \<longleftrightarrow>
     rest = [] \<or> isSpace (hd rest) \<or> hd rest = of_char CHR ''('' \<or>
     hd rest = of_char CHR '')'' \<or> hd rest = of_char CHR ''.''"

text \<open>The value of a string of digits in a base.\<close>

definition digitsValue :: "nat \<Rightarrow> rune list \<Rightarrow> nat" where
  "digitsValue b ds = foldl (\<lambda>acc d. acc * b + nat (d - of_char CHR ''0'')) 0 ds"

text \<open>The sign a literal starts with.\<close>

definition signOf :: "rune list \<Rightarrow> int" where
  "signOf sg = (if sg = [of_char CHR ''-''] then - 1 else 1)"


section \<open>Expressions that the list parser reads back\<close>

text \<open>An identifier, as the lexer reads one: a letter or an underscore, then letters,
  digits and underscores.\<close>

definition isIdentifier :: "(rune \<Rightarrow> bool) \<Rightarrow> gostring \<Rightarrow> bool" where
  "isIdentifier isL s \<longleftrightarrow>
     s \<noteq> [] \<and> (hd s = of_char CHR ''_'' \<or> isL (hd s)) \<and> list_all (isAlphanum isL) (tl s)"

text \<open>A token the lexer reads back from its printed form: a number, or an atom or constant
  that is the token interned for its text, the text being an identifier. A raw-character
  token is none.\<close>

definition readable :: "(rune \<Rightarrow> bool) \<Rightarrow> (gostring \<rightharpoonup> token) \<Rightarrow> token \<Rightarrow> bool" where
  "readable isL tbl t \<longleftrightarrow>
     (tok_typ t = tokenNumber \<and> tok_text t = []) \<or>
     ((tok_typ t = tokenAtom \<or> tok_typ t = tokenConst) \<and> tbl (tok_text t) = Some t \<and>
        isIdentifier isL (tok_text t))"

text \<open>
  \<open>listForm e\<close>: \<open>e\<close> is an expression as the list syntax denotes one. It is not empty;
  its atoms are readable; a pair that the printer writes with the quote sugar is
  \<open>(quote x)\<close> for an \<open>x\<close> in list form; in any other pair the head is in list form and
  the tail (\<open>listTail\<close>) is empty, an atom other than \<open>nil\<close>, or a pair again of such a
  head and such a tail.
\<close>

fun listForm :: "(rune \<Rightarrow> bool) \<Rightarrow> (gostring \<rightharpoonup> token) \<Rightarrow> expr \<Rightarrow> bool"
  and listTail :: "(rune \<Rightarrow> bool) \<Rightarrow> (gostring \<rightharpoonup> token) \<Rightarrow> expr \<Rightarrow> bool"
where
  "listForm isL tbl Nil = False"
| "listForm isL tbl (Atom t) = readable isL tbl t"
| "listForm isL tbl (Pair a d) =
     (if getAtom a = Some tokQuote
      then (case d of Pair x Nil \<Rightarrow> listForm isL tbl x | _ \<Rightarrow> False)
      else listForm isL tbl a \<and> listTail isL tbl d)"
| "listTail isL tbl Nil = True"
| "listTail isL tbl (Atom t) = (readable isL tbl t \<and> tok_text t \<noteq> runes ''nil'')"
| "listTail isL tbl (Pair a d) = (listForm isL tbl a \<and> listTail isL tbl d)"

text \<open>The punctuation, where the table of atoms has it, is interned with its own kind
  (\<open>mkToken\<close> returns whatever token the table holds for a text).\<close>

definition punctOK :: "(gostring \<rightharpoonup> token) \<Rightarrow> bool" where
  "punctOK tbl \<longleftrightarrow>
     (\<forall>t. tbl (runes ''('') = Some t \<longrightarrow> tok_typ t = tokenLpar) \<and>
     (\<forall>t. tbl (runes '')'') = Some t \<longrightarrow> tok_typ t = tokenRpar) \<and>
     (\<forall>t. tbl (runes ''.'') = Some t \<longrightarrow> tok_typ t = tokenDot) \<and>
     (\<forall>t. tbl [39] = Some t \<longrightarrow> tok_typ t = tokenQuote)"

text \<open>Fuel that is enough to parse the printed form of an expression.\<close>

fun fuelOf :: "expr \<Rightarrow> nat" where
  "fuelOf Nil = 1"
| "fuelOf (Atom t) = 2"
| "fuelOf (Pair a d) = 2 + fuelOf a + fuelOf d"

text \<open>What \<open>buildList\<close> writes after the first element of a list, for the tail \<open>d\<close>.\<close>

definition tailString :: "expr \<Rightarrow> gostring" where
  "tailString d =
     (case d of
        Nil \<Rightarrow> []
      | Atom t \<Rightarrow> runes '' . '' @ buildString d True
      | Pair a d' \<Rightarrow> 32 # buildList a d' True)"

text \<open>
  The parser \<open>p\<close> holds no token back and its lexer has \<open>s\<close> still to read (\<open>parserAt\<close>);
  the parser \<open>p'\<close> is \<open>p\<close> further on, with \<open>rest\<close> still to read and a table of atoms that
  extends the one of \<open>p\<close> (\<open>advances\<close>). \<open>parsesTo\<close> and \<open>tailParsesTo\<close> say that a call
  of \<open>List\<close>, or a call of \<open>lparList\<close> and the right parenthesis read after it, returns
  \<open>e\<close> and advances the parser so.
\<close>

definition parserAt :: "Parser \<Rightarrow> rune list \<Rightarrow> bool" where
  "parserAt p s \<longleftrightarrow> peekTok p = None \<and> lexAt (lex p) s"

definition advances :: "Parser \<Rightarrow> Parser \<Rightarrow> rune list \<Rightarrow> bool" where
  "advances p p' rest \<longleftrightarrow>
     parserAt p' rest \<and> atoms (lex p) \<subseteq>\<^sub>m atoms (lex p') \<and> punctOK (atoms (lex p'))"

definition parsesTo :: "(rune \<Rightarrow> bool) \<Rightarrow> nat \<Rightarrow> Parser \<Rightarrow> expr \<Rightarrow> rune list \<Rightarrow> bool" where
  "parsesTo isL n p e rest \<longleftrightarrow> (\<exists>p'. List isL n p = Some (Inr e, p') \<and> advances p p' rest)"

definition tailParsesTo :: "(rune \<Rightarrow> bool) \<Rightarrow> nat \<Rightarrow> Parser \<Rightarrow> expr \<Rightarrow> rune list \<Rightarrow> bool" where
  "tailParsesTo isL n p e rest \<longleftrightarrow>
     (\<exists>p' tok p''. lparList isL n p = Some (Inr e, p') \<and> parserNext isL p' = (Inr tok, p'') \<and>
        tok_typ tok = tokenRpar \<and> advances p p'' rest)"

text \<open>
  The two properties proved together, by induction on the size of the expression: \<open>List\<close>
  reads back a printed expression in list form with enough fuel (\<open>ListOK\<close>), and
  \<open>lparList\<close>, entered after the left parenthesis, reads back a printed list from its head
  \<open>a\<close> and its tail \<open>d\<close> (\<open>TailOK\<close>).
\<close>

definition ListOK :: "(rune \<Rightarrow> bool) \<Rightarrow> expr \<Rightarrow> bool" where
  "ListOK isL e \<longleftrightarrow>
     (\<forall>n p rest. fuelOf e \<le> n \<longrightarrow> listForm isL (atoms (lex p)) e \<longrightarrow>
        punctOK (atoms (lex p)) \<longrightarrow> parserAt p (buildString e True @ rest) \<longrightarrow> endOK rest \<longrightarrow>
        parsesTo isL n p e rest)"

definition TailOK :: "(rune \<Rightarrow> bool) \<Rightarrow> expr \<Rightarrow> expr \<Rightarrow> bool" where
  "TailOK isL a d \<longleftrightarrow>
     (\<forall>n p rest. fuelOf a + fuelOf d + 1 \<le> n \<longrightarrow> listForm isL (atoms (lex p)) a \<longrightarrow>
        listTail isL (atoms (lex p)) d \<longrightarrow> punctOK (atoms (lex p)) \<longrightarrow>
        parserAt p (buildList a d True @ 41 # rest) \<longrightarrow>
        tailParsesTo isL n p (Pair a d) rest)"

section \<open>Example inputs\<close>

definition exA :: token where "exA = mkInterned tokenAtom ''a''"
definition exB :: token where "exB = mkInterned tokenAtom ''b''"

definition twoFrames :: Context where
  "twoFrames =
     \<lparr>scope = [\<lparr>vars = [tokT \<mapsto> constT, tokF \<mapsto> constF, tokNil \<mapsto> constNIL,
                         exA \<mapsto> Atom (number 1)],
                 fn = top, args = Nil\<rparr>,
                \<lparr>vars = [exA \<mapsto> Atom (number 2)],
                 fn = runes ''f'', args = Pair (Atom (number 2)) Nil\<rparr>],
      stackDepth = 0, maxStackDepth = 0\<rparr>"

definition quoteA :: expr where
  "quoteA = Pair (Atom tokQuote) (Pair (Atom exA) Nil)"

definition exCarAB :: expr where
  "exCarAB = Pair (Atom exA) (Pair (Atom exB) Nil)"

definition condFT :: expr where
  "condFT =
     Pair (Pair (Atom tokF) (Pair (Pair (Atom tokQuote) (Pair (Atom exA) Nil)) Nil))
       (Pair (Pair (Atom tokT) (Pair (Pair (Atom tokQuote) (Pair (Atom exB) Nil)) Nil)) Nil)"

definition atomOfNil :: expr where
  "atomOfNil = Pair (Atom tokAtom) (Pair (Atom tokNil) Nil)"
definition nullOfNil :: expr where
  "nullOfNil = Pair (Atom tokNull) (Pair (Atom tokNil) Nil)"
definition quotedEmpty :: expr where
  "quotedEmpty = Pair (Atom tokQuote) (Pair Nil Nil)"
definition atomOfEmpty :: expr where
  "atomOfEmpty = Pair (Atom tokAtom) (Pair quotedEmpty Nil)"
definition nullOfEmpty :: expr where
  "nullOfEmpty = Pair (Atom tokNull) (Pair quotedEmpty Nil)"

text \<open>The context after a top-level evaluation that made two calls of \<open>apply\<close>.\<close>

definition afterCalls :: "64 word \<Rightarrow> 64 word \<Rightarrow> Context" where
  "afterCalls depth k =
     (if 0 <s depth then (NewContext depth)\<lparr>stackDepth := k\<rparr> else NewContext depth)"


text \<open>A table of letters for the examples: the ASCII letters and \<open>\<lambda>\<close>, which
  \<open>unicode.IsLetter\<close> accepts.\<close>

definition asciiLetter :: "rune \<Rightarrow> bool" where
  "asciiLetter r \<longleftrightarrow> (65 \<le> r \<and> r \<le> 90) \<or> (97 \<le> r \<and> r \<le> 122) \<or> r = 955"




text \<open>Expressions over the reserved names, for the printer and the list parser:
  \<open>(car '(cdr . T) -12)\<close>, the pair \<open>(car . nil)\<close> whose tail is the atom \<open>nil\<close>, and
  \<open>(quote car cdr)\<close>.\<close>

definition exRound :: expr where
  "exRound =
     Pair (Atom tokCar)
       (Pair (Pair (Atom tokQuote) (Pair (Pair (Atom tokCdr) (Atom tokT)) Nil))
          (Pair (Atom (number (- 12))) Nil))"

definition exNilTail :: expr where
  "exNilTail = Pair (Atom tokCar) (Atom tokNil)"

definition exQuote2 :: expr where
  "exQuote2 = Pair (Atom tokQuote) (Pair (Atom tokCar) (Pair (Atom tokCdr) Nil))"

text \<open>Calls of the elementary \<open>apply\<close>: \<open>(apply 'cons 1 2)\<close> with three arguments,
  \<open>(apply 'car)\<close> with one, \<open>(apply)\<close> with none, \<open>(apply '() 1)\<close> whose function is the
  empty expression, and \<open>(apply '(lambda (f) (f 1)) '())\<close>, which binds \<open>f\<close> to the empty
  expression and applies it.\<close>

definition applyCons12 :: expr where
  "applyCons12 =
     Pair (Atom tokApply)
       (Pair (Pair (Atom tokQuote) (Pair (Atom tokCons) Nil))
          (Pair (Atom (number 1)) (Pair (Atom (number 2)) Nil)))"

definition applyCar0 :: expr where
  "applyCar0 = Pair (Atom tokApply) (Pair (Pair (Atom tokQuote) (Pair (Atom tokCar) Nil)) Nil)"





section \<open>Composite car/cdr\<close>

lemma cadrLoop_Nil: "cadrLoop str i Nil = Nil"
  by (cases i) simp_all

lemma cadrCompose_Nil: "cadrCompose ls Nil = Nil"
  by (induction ls) simp_all

lemma cadrCompose_snoc:
  "cadrCompose (ls @ [l]) x =
     cadrCompose ls (if l = of_char CHR ''a'' then Car x else Cdr x)"
  by (induction ls) simp_all

lemma cadrLoop_compose:
  "cadrLoop (c # mid @ rest) (length mid) e = cadrCompose mid e"
proof (induction mid arbitrary: e rest rule: rev_induct)
  case Nil
  show ?case by simp
next
  case (snoc l mid)
  have nth: "(c # (mid @ [l]) @ rest) ! Suc (length mid) = l"
    by (simp add: nth_append)
  show ?case
  proof (cases "e = Nil")
    case True
    then show ?thesis by (simp add: cadrCompose_Nil)
  next
    case False
    then show ?thesis
      using snoc.IH [where rest = "l # rest"] nth
      by (simp add: cadrCompose_snoc)
  qed
qed

lemma isCadR_shape:
  "isCadR s \<longleftrightarrow>
     (\<exists>mid. mid \<noteq> [] \<and> set mid \<subseteq> {of_char CHR ''a'', of_char CHR ''d''} \<and>
        s = of_char CHR ''c'' # mid @ [of_char CHR ''r''])"
proof
  assume h: "isCadR s"
  then have len: "3 \<le> length s"
    by (auto simp: isCadR_def split: if_splits)
  then obtain x t where s: "s = x # t" and "t \<noteq> []"
    by (cases s) fastforce+
  then obtain mid y where t: "t = mid @ [y]"
    by (cases t rule: rev_cases) auto
  have "mid \<noteq> []"
    using len by (auto simp: s t)
  moreover have "x = of_char CHR ''c''" "y = of_char CHR ''r''"
    using h by (auto simp: isCadR_def s t nth_append split: if_splits)
  moreover have "set mid \<subseteq> {of_char CHR ''a'', of_char CHR ''d''}"
    using h by (auto simp: isCadR_def s t list_all_iff split: if_splits)
  ultimately show "\<exists>mid. mid \<noteq> [] \<and> set mid \<subseteq> {of_char CHR ''a'', of_char CHR ''d''} \<and>
        s = of_char CHR ''c'' # mid @ [of_char CHR ''r'']"
    using s t by blast
next
  assume "\<exists>mid. mid \<noteq> [] \<and> set mid \<subseteq> {of_char CHR ''a'', of_char CHR ''d''} \<and>
        s = of_char CHR ''c'' # mid @ [of_char CHR ''r'']"
  then obtain mid where mid: "mid \<noteq> []"
      "set mid \<subseteq> {of_char CHR ''a'', of_char CHR ''d''}"
      "s = of_char CHR ''c'' # mid @ [of_char CHR ''r'']"
    by blast
  have "0 < length mid" using mid(1) by simp
  then show "isCadR s"
    using mid(2) by (auto simp: isCadR_def mid(3) nth_append list_all_iff)
qed

section \<open>The evaluator's equations, in the shape of the source\<close>

lemmas entry_defs = apply'_def applyFunc_def eval_def evcon_def evlis_def

lemma apply'_0: "apply' 0 c name f x = None"
  unfolding entry_defs by simp

lemma apply'_Suc:
  "apply' (Suc n) c name f x =
     (case okToCall c name f x of
        (Inl s, c1) \<Rightarrow> Some (Inl s, c1)
      | (Inr _, c1) \<Rightarrow>
          (case f of
             Nil \<Rightarrow> Some (Inl RuntimePanic, c1)
           | Atom a \<Rightarrow>
               (case lookupElementary a of
                  Some elem \<Rightarrow>
                    if elem = ElemApply then applyFunc n c1 a x
                    else Some (callElem elem c1 a x)
                | None \<Rightarrow>
                    if tok_typ a \<noteq> tokenAtom then Some (Inl (Error (NotAFunction f)), c1)
                    else
                      (case eval n c1 f of
                         None \<Rightarrow> None
                       | Some (Inl s, c2) \<Rightarrow> Some (Inl s, c2)
                       | Some (Inr v, c2) \<Rightarrow> apply' n c2 name v x))
           | Pair fa fd \<Rightarrow>
               if getAtom (Car f) = Some tokLambda \<or> getAtom (Car f) = Some tokASCIILambda
               then
                 let args = x; formals = Car (Cdr f) in
                 if length' args \<noteq> length' formals
                 then Some (Inl (Error (ArgsMismatch name formals args)), c1)
                 else
                   (case bindArgs (push c1 name args) args formals of
                      (Inl s, c2) \<Rightarrow> Some (Inl s, c2)
                    | (Inr _, c2) \<Rightarrow>
                        (case eval n c2 (Car (Cdr (Cdr f))) of
                           None \<Rightarrow> None
                         | Some (Inl s, c3) \<Rightarrow> Some (Inl s, c3)
                         | Some (Inr v, c3) \<Rightarrow>
                             (case pop c3 of
                                Inl s \<Rightarrow> Some (Inl s, c3)
                              | Inr c4 \<Rightarrow> Some (Inr v, c4))))
               else Some (Inl (Error (ApplyFailed name x)), c1)))"
  unfolding entry_defs by simp

lemma applyFunc_0: "applyFunc 0 c name e = None"
  unfolding entry_defs by simp

lemma applyFunc_Suc:
  "applyFunc (Suc n) c name e = apply' n c (runes ''applyFunc'') (Car e) (Cdr e)"
  unfolding entry_defs by simp

lemma eval_0: "eval 0 c e = None"
  unfolding entry_defs by simp

lemma eval_Suc:
  "eval (Suc n) c e =
     (if e = Nil then Some (Inr Nil, c)
      else
        (case getAtom e of
           Some atom \<Rightarrow>
             (case get c atom of
                Inl s \<Rightarrow> Some (Inl s, c)
              | Inr v \<Rightarrow> Some (Inr v, c))
         | None \<Rightarrow>
             (case getAtom (Car e) of
                Some atom \<Rightarrow>
                  if atom = tokQuote then Some (Inr (Car (Cdr e)), c)
                  else if atom = tokCond then evcon n c (Cdr e)
                  else
                    (case evlis n c (Cdr e) of
                       None \<Rightarrow> None
                     | Some (Inl s, c1) \<Rightarrow> Some (Inl s, c1)
                     | Some (Inr vs, c1) \<Rightarrow> apply' n c1 (tok_text atom) (Car e) vs)
              | None \<Rightarrow> Some (Inl (Error (CannotEval e)), c))))"
  unfolding entry_defs by simp

lemma evcon_0: "evcon 0 c x = None"
  unfolding entry_defs by simp

lemma evcon_Suc:
  "evcon (Suc n) c x =
     (if x = Nil then Some (Inl (Error NoTrueCaseInCond), c)
      else
        (case eval n c (Car (Car x)) of
           None \<Rightarrow> None
         | Some (Inl s, c1) \<Rightarrow> Some (Inl s, c1)
         | Some (Inr v, c1) \<Rightarrow>
             if isTrue v then eval n c1 (Car (Cdr (Car x)))
             else evcon n c1 (Cdr x)))"
  unfolding entry_defs by simp

lemma evlis_0: "evlis 0 c m = None"
  unfolding entry_defs by simp

lemma evlis_Suc:
  "evlis (Suc n) c m =
     (if m = Nil then Some (Inr Nil, c)
      else
        (case eval n c (Car m) of
           None \<Rightarrow> None
         | Some (Inl s, c1) \<Rightarrow> Some (Inl s, c1)
         | Some (Inr v, c1) \<Rightarrow>
             (case evlis n c1 (Cdr m) of
                None \<Rightarrow> None
              | Some (Inl s, c2) \<Rightarrow> Some (Inl s, c2)
              | Some (Inr vs, c2) \<Rightarrow> Some (Inr (Cons v vs), c2))))"
  unfolding entry_defs by simp

section \<open>Composite car/cdr as an elementary\<close>

lemma elementary_cases:
  "elementary name = Some f \<Longrightarrow>
     name \<in> {tokAdd, tokAnd, tokApply, tokAtom, tokCar, tokCdr, tokCons, tokDefn, tokDiv,
       tokEq, tokGe, tokGt, tokLe, tokList, tokLt, tokMul, tokNe, tokNull, tokOr, tokRem, tokSub}"
  by (auto simp: elementary_def split: if_splits)

lemma elementary_cadr:
  assumes "elementary name = Some f" "isCadR (tok_text name)"
  shows "(name = tokCar \<and> f = ElemCar) \<or> (name = tokCdr \<and> f = ElemCdr)"
proof -
  have "name \<in> {tokAdd, tokAnd, tokApply, tokAtom, tokCar, tokCdr, tokCons, tokDefn, tokDiv,
       tokEq, tokGe, tokGt, tokLe, tokList, tokLt, tokMul, tokNe, tokNull, tokOr, tokRem, tokSub}"
    using assms(1) by (rule elementary_cases)
  then consider "name = tokCar" | "name = tokCdr" | "\<not> isCadR (tok_text name)"
    by (auto simp: isCadR_def tok_defs)
  then show ?thesis
  proof cases
    case 1 then show ?thesis using assms(1) by (simp add: elementary_def tok_defs)
  next
    case 2 then show ?thesis using assms(1) by (simp add: elementary_def tok_defs)
  next
    case 3 then show ?thesis using assms(2) by simp
  qed
qed

lemma cadrFunc_compose:
  assumes "isCadR (tok_text name)"
  shows "cadrFunc name e = cadrCompose (butlast (tl (tok_text name))) (Car e)"
proof -
  obtain mid where mid: "tok_text name = of_char CHR ''c'' # mid @ [of_char CHR ''r'']"
    using assms isCadR_shape by blast
  have "cadrLoop (tok_text name) (length (tok_text name) - 2) (Car e) = cadrCompose mid (Car e)"
    using cadrLoop_compose [of "of_char CHR ''c''" mid "[of_char CHR ''r'']" "Car e"]
    by (simp add: mid)
  then show ?thesis
    using assms by (simp add: cadrFunc_def Let_def mid butlast_append)
qed

text \<open>
  Claim C8. A name is a composite accessor exactly when it is \<open>c\<close>, one or more letters
  \<open>a\<close> or \<open>d\<close>, and \<open>r\<close>; in particular \<open>cr\<close> is none. Such a name is an
  elementary, and applied to an argument list whose first element is \<open>x\<close> it returns the
  composition of \<open>Car\<close> (letter \<open>a\<close>) and \<open>Cdr\<close> (letter \<open>d\<close>) read off its middle
  letters, the leftmost letter outermost, so the letters are applied right to left:
  \<open>caaddr x = Car (Car (Cdr (Cdr x)))\<close>.
\<close>

theorem cadr_composition:
  "(isCadR s \<longleftrightarrow>
      (\<exists>mid. mid \<noteq> [] \<and> set mid \<subseteq> {of_char CHR ''a'', of_char CHR ''d''} \<and>
         s = of_char CHR ''c'' # mid @ [of_char CHR ''r'']))
   \<and> \<not> isCadR (runes ''cr'')
   \<and> (isCadR (tok_text name) \<longrightarrow>
        (\<exists>elem. lookupElementary name = Some elem \<and> elem \<noteq> ElemApply \<and>
           callElem elem c name (Pair x rest) =
             (Inr (cadrCompose (butlast (tl (tok_text name))) x), c)))
   \<and> cadrCompose (runes ''aadd'') x = Car (Car (Cdr (Cdr x)))"
proof (intro conjI impI)
  show "isCadR s \<longleftrightarrow>
      (\<exists>mid. mid \<noteq> [] \<and> set mid \<subseteq> {of_char CHR ''a'', of_char CHR ''d''} \<and>
         s = of_char CHR ''c'' # mid @ [of_char CHR ''r''])"
    by (rule isCadR_shape)
  show "\<not> isCadR (runes ''cr'')"
    by (simp add: isCadR_def runes_def)
  show "cadrCompose (runes ''aadd'') x = Car (Car (Cdr (Cdr x)))"
    by (simp add: runes_def)
next
  assume h: "isCadR (tok_text name)"
  show "\<exists>elem. lookupElementary name = Some elem \<and> elem \<noteq> ElemApply \<and>
           callElem elem c name (Pair x rest) =
             (Inr (cadrCompose (butlast (tl (tok_text name))) x), c)"
  proof (cases "elementary name")
    case None
    then show ?thesis
      using h cadrFunc_compose [OF h, of "Pair x rest"]
      by (simp add: lookupElementary_def callElem_def)
  next
    case (Some f)
    from elementary_cadr [OF Some h] show ?thesis
    proof
      assume "name = tokCar \<and> f = ElemCar"
      then show ?thesis using Some
        by (simp add: lookupElementary_def callElem_def carFunc_def tok_defs)
    next
      assume "name = tokCdr \<and> f = ElemCdr"
      then show ?thesis using Some
        by (simp add: lookupElementary_def callElem_def cdrFunc_def tok_defs)
    qed
  qed
qed

theorem cadr_composition_witness:
  "isCadR (runes ''caaddr'') \<and>
   lookupElementary (mkInterned tokenAtom ''caaddr'') = Some ElemCadr \<and>
   callElem ElemCadr (NewContext 0) (mkInterned tokenAtom ''caaddr'')
     (Pair (Pair (Atom (number 1)) (Pair (Atom (number 2))
        (Pair (Pair (Atom (number 5)) Nil) Nil))) Nil) =
     (Inr (Atom (number 5)), NewContext 0)"
proof -
  have h: "isCadR (tok_text (mkInterned tokenAtom ''caaddr''))"
    by (simp add: isCadR_def tok_defs)
  have l: "lookupElementary (mkInterned tokenAtom ''caaddr'') = Some ElemCadr"
    by (simp add: lookupElementary_def elementary_def isCadR_def tok_defs)
  from cadr_composition [of "runes ''caaddr''" "mkInterned tokenAtom ''caaddr''" "NewContext 0"
      "Pair (Atom (number 1)) (Pair (Atom (number 2))
        (Pair (Pair (Atom (number 5)) Nil) Nil))" Nil] h l
  show ?thesis
    by (simp add: tok_defs)
qed

section \<open>Scope lookup\<close>

lemma getScopeLoop_snoc:
  "getScopeLoop (ss @ [s]) tok k sc =
     (if vars s tok \<noteq> None then Some (k + length ss) else getScopeLoop ss tok k sc)"
  by (induction ss arbitrary: k sc) simp_all

lemma getScopeLoop_none:
  "(\<forall>j < length ss. vars (ss ! j) tok = None) \<Longrightarrow> getScopeLoop ss tok k sc = sc"
proof (induction ss arbitrary: k sc)
  case Nil
  show ?case by simp
next
  case (Cons s ss)
  have "vars s tok = None" using Cons.prems by fastforce
  moreover have "\<forall>j < length ss. vars (ss ! j) tok = None" using Cons.prems by fastforce
  ultimately show ?case using Cons.IH by simp
qed

lemma getScopeLoop_last:
  assumes "i < length ss" "vars (ss ! i) tok \<noteq> None"
    and "\<forall>j. i < j \<and> j < length ss \<longrightarrow> vars (ss ! j) tok = None"
  shows "getScopeLoop ss tok k sc = Some (k + i)"
  using assms
proof (induction ss arbitrary: sc rule: rev_induct)
  case Nil
  then show ?case by simp
next
  case (snoc s ss)
  show ?case
  proof (cases "i = length ss")
    case True
    then show ?thesis using snoc.prems(2) by (simp add: getScopeLoop_snoc)
  next
    case False
    then have i: "i < length ss" using snoc.prems(1) by simp
    have last: "vars s tok = None"
      using snoc.prems(3) [rule_format, of "length ss"] i by simp
    have "vars (ss ! i) tok \<noteq> None"
      using snoc.prems(2) i by (simp add: nth_append)
    moreover have "\<forall>j. i < j \<and> j < length ss \<longrightarrow> vars (ss ! j) tok = None"
    proof (intro allI impI)
      fix j assume j: "i < j \<and> j < length ss"
      then show "vars (ss ! j) tok = None"
        using snoc.prems(3) [rule_format, of j] by (simp add: nth_append)
    qed
    ultimately have "getScopeLoop ss tok k sc = Some (k + i)"
      using snoc.IH i by blast
    then show ?thesis using last by (simp add: getScopeLoop_snoc)
  qed
qed

text \<open>
  Claim C1, as amended. \<open>getScope\<close> resolves a key to the innermost frame that binds
  it, the one pushed last: when frame \<open>i\<close> binds \<open>tok\<close> and no later frame does,
  \<open>getScope\<close> is frame \<open>i\<close>, \<open>get\<close> (of a token that is no number) returns the value
  bound there and \<open>set\<close> (of a token that is no constant) rebinds there. When no frame
  binds \<open>tok\<close>, the topmost frame is chosen: \<open>get\<close> returns the empty expression and
  \<open>set\<close> binds in the topmost frame.
\<close>

theorem innermost_binding_wins:
  "(i < length (scope c) \<and> vars (scope c ! i) tok \<noteq> None \<and>
      (\<forall>j. i < j \<and> j < length (scope c) \<longrightarrow> vars (scope c ! j) tok = None) \<longrightarrow>
        getScope c tok = Inr i \<and>
        (tok_typ tok \<noteq> tokenNumber \<longrightarrow> get c tok = Inr (the (vars (scope c ! i) tok))) \<and>
        (tok_typ tok \<noteq> tokenConst \<longrightarrow> set' c tok e = Inr (bindAt c i tok e)))
   \<and> (scope c \<noteq> [] \<and> (\<forall>j < length (scope c). vars (scope c ! j) tok = None) \<longrightarrow>
        getScope c tok = Inr (length (scope c) - 1) \<and>
        (tok_typ tok \<noteq> tokenNumber \<longrightarrow> get c tok = Inr Nil) \<and>
        (tok_typ tok \<noteq> tokenConst \<longrightarrow>
           set' c tok e = Inr (bindAt c (length (scope c) - 1) tok e)))"
proof (intro conjI impI)
  assume h: "i < length (scope c) \<and> vars (scope c ! i) tok \<noteq> None \<and>
      (\<forall>j. i < j \<and> j < length (scope c) \<longrightarrow> vars (scope c ! j) tok = None)"
  then have "getScopeLoop (scope c) tok 0 None = Some i"
    using getScopeLoop_last [of i "scope c" tok 0 None] by simp
  then show g: "getScope c tok = Inr i"
    by (simp add: getScope_def)
  show "get c tok = Inr (the (vars (scope c ! i) tok))" if "tok_typ tok \<noteq> tokenNumber"
    using that g h by (auto simp: get_def)
  show "set' c tok e = Inr (bindAt c i tok e)" if "tok_typ tok \<noteq> tokenConst"
    using that g by (simp add: set'_def notConst_def)
next
  assume h: "scope c \<noteq> [] \<and> (\<forall>j < length (scope c). vars (scope c ! j) tok = None)"
  then have "getScopeLoop (scope c) tok 0 None = None"
    using getScopeLoop_none [of "scope c" tok 0 None] by simp
  then show g: "getScope c tok = Inr (length (scope c) - 1)"
    using h by (simp add: getScope_def)
  show "get c tok = Inr Nil" if "tok_typ tok \<noteq> tokenNumber"
    using that g h by (simp add: get_def)
  show "set' c tok e = Inr (bindAt c (length (scope c) - 1) tok e)"
    if "tok_typ tok \<noteq> tokenConst"
    using that g by (simp add: set'_def notConst_def)
qed

text \<open>
  Claim C1 as stated fails: with \<open>a\<close> bound to 1 in the global frame and to 2 in the
  frame of a call, \<open>get\<close> returns 2, the innermost binding, and \<open>set\<close> rebinds the
  innermost frame, leaving the global binding as it was.
\<close>

theorem outermost_binding_counterexample:
  "vars (scope twoFrames ! 0) exA = Some (Atom (number 1)) \<and>
   vars (scope twoFrames ! 1) exA = Some (Atom (number 2)) \<and>
   get twoFrames exA = Inr (Atom (number 2)) \<and>
   get twoFrames exA \<noteq> Inr (Atom (number 1)) \<and>
   set' twoFrames exA Nil = Inr (bindAt twoFrames 1 exA Nil) \<and>
   vars (scope (bindAt twoFrames 1 exA Nil) ! 0) exA = Some (Atom (number 1)) \<and>
   vars (scope (bindAt twoFrames 1 exA Nil) ! 1) exA = Some Nil"
  by (simp add: twoFrames_def exA_def get_def set'_def notConst_def getScope_def bindAt_def
      tok_defs)

theorem innermost_binding_wins_witness:
  "getScope twoFrames exA = Inr 1 \<and>
   get twoFrames exA = Inr (Atom (number 2)) \<and>
   set' twoFrames exA Nil = Inr (bindAt twoFrames 1 exA Nil) \<and>
   getScope twoFrames exB = Inr 1 \<and>
   get twoFrames exB = Inr Nil \<and>
   set' twoFrames exB Nil = Inr (bindAt twoFrames 1 exB Nil)"
proof -
  have a: "1 < length (scope twoFrames) \<and> vars (scope twoFrames ! 1) exA \<noteq> None \<and>
      (\<forall>j. 1 < j \<and> j < length (scope twoFrames) \<longrightarrow> vars (scope twoFrames ! j) exA = None)"
    by (simp add: twoFrames_def exA_def tok_defs)
  have b: "scope twoFrames \<noteq> [] \<and>
      (\<forall>j < length (scope twoFrames). vars (scope twoFrames ! j) exB = None)"
    by (simp add: twoFrames_def exB_def exA_def tok_defs constT_def less_Suc_eq)
  have ta: "tok_typ exA \<noteq> tokenNumber \<and> tok_typ exA \<noteq> tokenConst"
    and tb: "tok_typ exB \<noteq> tokenNumber \<and> tok_typ exB \<noteq> tokenConst"
    by (simp_all add: exA_def exB_def tok_defs)
  have va: "the (vars (scope twoFrames ! 1) exA) = Atom (number 2)"
    by (simp add: twoFrames_def)
  have la: "length (scope twoFrames) - 1 = 1"
    by (simp add: twoFrames_def)
  from innermost_binding_wins [of 1 twoFrames exA Nil] a ta va
  have "getScope twoFrames exA = Inr 1 \<and>
   get twoFrames exA = Inr (Atom (number 2)) \<and>
   set' twoFrames exA Nil = Inr (bindAt twoFrames 1 exA Nil)"
    by simp
  moreover from innermost_binding_wins [of 0 twoFrames exB Nil] b tb la
  have "getScope twoFrames exB = Inr 1 \<and>
   get twoFrames exB = Inr Nil \<and>
   set' twoFrames exB Nil = Inr (bindAt twoFrames 1 exB Nil)"
    by simp
  ultimately show ?thesis by simp
qed

section \<open>Running the evaluator\<close>

lemmas run_simps =
  apply'_0 apply'_Suc applyFunc_0 applyFunc_Suc eval_0 eval_Suc evcon_0 evcon_Suc
  evlis_0 evlis_Suc

lemmas ctx_defs =
  NewContext_def okToCall_def push_def pop_def get_def set'_def setLocal_def notConst_def
  getScope_def bindAt_def lookupElementary_def elementary_def isCadR_def Cons_def
  atomExpr_def constT_def constF_def constNIL_def truthExpr_def top_def Let_def
  word_sless_alt

text \<open>
  Claim C2 fails on the code: \<open>stackDepth\<close> is incremented by \<open>okToCall\<close> and never
  decremented (\<open>pop\<close> leaves it alone; only \<open>PopStack\<close> resets it), so it counts the
  calls of \<open>apply\<close> since the last reset. With a maximum depth of 1, evaluating
  \<open>'a\<close> succeeds once, its single activation returns and its frame is popped, and
  evaluating \<open>'a\<close> again raises "stack too deep" although no activation is live.
\<close>

theorem depth_counter_counts_calls:
  "Eval 3 (NewContext 1) quoteA = Some (Inr (Atom exA), (NewContext 1)\<lparr>stackDepth := 1\<rparr>) \<and>
   Eval 3 ((NewContext 1)\<lparr>stackDepth := 1\<rparr>) quoteA =
     Some (Inl (Error StackTooDeep), push ((NewContext 1)\<lparr>stackDepth := 2\<rparr>) top Nil)"
  by (simp add: Eval_def quoteA_def exA_def run_simps ctx_defs tok_defs eval_nat_numeral)

lemma lookupElementary_tokApply: "lookupElementary tokApply = Some ElemApply"
  by (simp add: lookupElementary_def elementary_def tok_defs)

text \<open>
  Claim C3, as amended. The elementary \<open>apply\<close> checks no arity: whatever its argument
  list \<open>e\<close>, it re-enters \<open>apply\<close> with the function \<open>Car e\<close>, its first argument, and
  the argument list \<open>Cdr e\<close>, all its remaining arguments, under the fixed trace label
  \<open>applyFunc\<close>, whatever label and name it was called with itself. Called with the two
  arguments \<open>f\<close> and \<open>x\<close> it so applies \<open>f\<close> to the single argument \<open>x\<close>; called with
  none it applies the empty expression, which raises "undefined". The token \<open>apply\<close> is
  dispatched to it, and when the first argument names another elementary, that elementary
  receives the remaining arguments.
\<close>

theorem applyFunc_applies_first_to_rest:
  "applyFunc (Suc n) c name e = apply' n c (runes ''applyFunc'') (Car e) (Cdr e)
   \<and> applyFunc (Suc n) c name (Pair f (Pair x Nil)) =
        apply' n c (runes ''applyFunc'') f (Pair x Nil)
   \<and> applyFunc (Suc n) c name (Pair f rest) = apply' n c (runes ''applyFunc'') f rest
   \<and> applyFunc (Suc (Suc n)) c name Nil =
        Some (Inl (Error (Undefined (runes ''applyFunc'') Nil)), c)
   \<and> lookupElementary tokApply = Some ElemApply
   \<and> (okToCall c nm (Atom tokApply) e = (Inr (), c1) \<longrightarrow>
        apply' (Suc (Suc n)) c nm (Atom tokApply) e =
          apply' n c1 (runes ''applyFunc'') (Car e) (Cdr e))
   \<and> (okToCall c nm (Atom tokApply) (Pair f (Pair x Nil)) = (Inr (), c1) \<longrightarrow>
        apply' (Suc (Suc n)) c nm (Atom tokApply) (Pair f (Pair x Nil)) =
          apply' n c1 (runes ''applyFunc'') f (Pair x Nil))
   \<and> (okToCall c nm (Atom tokApply) (Pair (Atom g) rest) = (Inr (), c1) \<and>
        okToCall c1 (runes ''applyFunc'') (Atom g) rest = (Inr (), c2) \<and>
        lookupElementary g = Some elem \<and> elem \<noteq> ElemApply \<longrightarrow>
          apply' (Suc (Suc (Suc n))) c nm (Atom tokApply) (Pair (Atom g) rest) =
            Some (callElem elem c2 g rest))"
proof (intro conjI impI)
  show "applyFunc (Suc n) c name e = apply' n c (runes ''applyFunc'') (Car e) (Cdr e)"
    by (simp add: applyFunc_Suc)
  show "applyFunc (Suc n) c name (Pair f (Pair x Nil)) =
        apply' n c (runes ''applyFunc'') f (Pair x Nil)"
    by (simp add: applyFunc_Suc)
  show "applyFunc (Suc n) c name (Pair f rest) = apply' n c (runes ''applyFunc'') f rest"
    by (simp add: applyFunc_Suc)
  show "applyFunc (Suc (Suc n)) c name Nil =
        Some (Inl (Error (Undefined (runes ''applyFunc'') Nil)), c)"
    by (simp add: applyFunc_Suc apply'_Suc okToCall_def)
  show "lookupElementary tokApply = Some ElemApply"
    by (rule lookupElementary_tokApply)
next
  assume "okToCall c nm (Atom tokApply) e = (Inr (), c1)"
  then show "apply' (Suc (Suc n)) c nm (Atom tokApply) e =
          apply' n c1 (runes ''applyFunc'') (Car e) (Cdr e)"
    by (simp add: apply'_Suc [of "Suc n"] applyFunc_Suc lookupElementary_tokApply)
next
  assume "okToCall c nm (Atom tokApply) (Pair f (Pair x Nil)) = (Inr (), c1)"
  then show "apply' (Suc (Suc n)) c nm (Atom tokApply) (Pair f (Pair x Nil)) =
          apply' n c1 (runes ''applyFunc'') f (Pair x Nil)"
    by (simp add: apply'_Suc [of "Suc n"] applyFunc_Suc lookupElementary_tokApply)
next
  assume h: "okToCall c nm (Atom tokApply) (Pair (Atom g) rest) = (Inr (), c1) \<and>
        okToCall c1 (runes ''applyFunc'') (Atom g) rest = (Inr (), c2) \<and>
        lookupElementary g = Some elem \<and> elem \<noteq> ElemApply"
  then have "apply' (Suc n) c1 (runes ''applyFunc'') (Atom g) rest =
      Some (callElem elem c2 g rest)"
    by (simp add: apply'_Suc [of n])
  then show "apply' (Suc (Suc (Suc n))) c nm (Atom tokApply) (Pair (Atom g) rest) =
            Some (callElem elem c2 g rest)"
    using h by (simp add: apply'_Suc [of "Suc (Suc n)"] applyFunc_Suc lookupElementary_tokApply)
qed

text \<open>\<open>apply\<close> given \<open>car\<close> and the list \<open>(a b)\<close>, and \<open>apply\<close> given \<open>cons\<close>, \<open>1\<close> and
  \<open>2\<close>.\<close>

theorem applyFunc_applies_first_to_rest_witness:
  "okToCall (NewContext 0) (runes ''apply'') (Atom tokApply)
      (Pair (Atom tokCar) (Pair exCarAB Nil)) = (Inr (), NewContext 0) \<and>
   apply' 3 (NewContext 0) (runes ''apply'') (Atom tokApply)
      (Pair (Atom tokCar) (Pair exCarAB Nil)) = Some (Inr (Atom exA), NewContext 0) \<and>
   lookupElementary tokCons = Some ElemCons \<and>
   apply' 3 (NewContext 0) (runes ''apply'') (Atom tokApply)
      (Pair (Atom tokCons) (Pair (Atom (number 1)) (Pair (Atom (number 2)) Nil))) =
     Some (Inr (Pair (Atom (number 1)) (Atom (number 2))), NewContext 0)"
proof -
  have ok: "okToCall (NewContext 0) (runes ''apply'') (Atom tokApply)
      (Pair (Atom tokCar) (Pair exCarAB Nil)) = (Inr (), NewContext 0)"
    by (simp add: ctx_defs)
  have car: "apply' 1 (NewContext 0) (runes ''applyFunc'') (Atom tokCar) (Pair exCarAB Nil) =
      Some (Inr (Atom exA), NewContext 0)"
    by (simp add: run_simps ctx_defs tok_defs callElem_def carFunc_def exCarAB_def)
  have ok1: "okToCall (NewContext 0) (runes ''apply'') (Atom tokApply)
      (Pair (Atom tokCons) (Pair (Atom (number 1)) (Pair (Atom (number 2)) Nil))) =
        (Inr (), NewContext 0)"
    by (simp add: ctx_defs)
  have ok2: "okToCall (NewContext 0) (runes ''applyFunc'') (Atom tokCons)
      (Pair (Atom (number 1)) (Pair (Atom (number 2)) Nil)) = (Inr (), NewContext 0)"
    by (simp add: ctx_defs)
  have el: "lookupElementary tokCons = Some ElemCons"
    by (simp add: lookupElementary_def elementary_def tok_defs)
  have cons: "callElem ElemCons (NewContext 0) tokCons
      (Pair (Atom (number 1)) (Pair (Atom (number 2)) Nil)) =
        (Inr (Pair (Atom (number 1)) (Atom (number 2))), NewContext 0)"
    by (simp add: callElem_def consFunc_def Cons_def)
  from applyFunc_applies_first_to_rest [where n = 1 and c = "NewContext 0"
      and f = "Atom tokCar" and x = exCarAB and nm = "runes ''apply''"
      and ?c1.0 = "NewContext 0"] ok car
  have first: "apply' 3 (NewContext 0) (runes ''apply'') (Atom tokApply)
      (Pair (Atom tokCar) (Pair exCarAB Nil)) = Some (Inr (Atom exA), NewContext 0)"
    by (simp add: eval_nat_numeral)
  from applyFunc_applies_first_to_rest [where n = 0 and c = "NewContext 0"
      and g = tokCons and rest = "Pair (Atom (number 1)) (Pair (Atom (number 2)) Nil)"
      and nm = "runes ''apply''" and ?c1.0 = "NewContext 0" and ?c2.0 = "NewContext 0"
      and elem = ElemCons] ok1 ok2 el cons
  have second: "apply' 3 (NewContext 0) (runes ''apply'') (Atom tokApply)
      (Pair (Atom tokCons) (Pair (Atom (number 1)) (Pair (Atom (number 2)) Nil))) =
     Some (Inr (Pair (Atom (number 1)) (Atom (number 2))), NewContext 0)"
    by (simp add: eval_nat_numeral)
  show ?thesis
    using ok first el second by simp
qed

text \<open>
  Claim C3 as stated fails: the elementary \<open>apply\<close> has no arity of 2. Given three
  arguments, \<open>(apply 'cons 1 2)\<close>, it applies the first to the second and the third and
  returns \<open>(1 . 2)\<close>; given one, \<open>(apply 'car)\<close>, it applies \<open>car\<close> to no argument and
  returns the empty expression; neither call raises an error.
\<close>

theorem apply_arity_counterexample:
  "map_option fst (Eval 6 (NewContext 0) applyCons12) =
     Some (Inr (Pair (Atom (number 1)) (Atom (number 2))))
   \<and> map_option fst (Eval 5 (NewContext 0) applyCar0) = Some (Inr Nil)
   \<and> map_option fst (List asciiLetter 12 (NewParser initAtoms (runes ''(apply 'cons 1 2)''))) =
        Some (Inr applyCons12)
   \<and> map_option fst (List asciiLetter 12 (NewParser initAtoms (runes ''(apply 'car)''))) =
        Some (Inr applyCar0)"
  by code_simp

lemma isTrue_iff: "isTrue v \<longleftrightarrow> v = constT"
  by (cases v) (auto simp: constT_def atomExpr_def)

text \<open>
  Claim C7. \<open>evcon\<close> on the exhausted clause list raises "no true case in cond". On a
  list \<open>x\<close> that is not exhausted it evaluates the test of the first clause,
  \<open>Car (Car x)\<close>, first; when the value is the constant \<open>T\<close> it evaluates the result of
  that clause, \<open>Car (Cdr (Car x))\<close>, and returns that, otherwise it goes on with the
  remaining clauses \<open>Cdr x\<close>; an error raised by the test is passed on. Only the atom \<open>T\<close>
  is true: the empty expression, \<open>nil\<close>, \<open>F\<close> and every number count as false.
\<close>

theorem evcon_first_true_clause:
  "evcon (Suc n) c Nil = Some (Inl (Error NoTrueCaseInCond), c)
   \<and> (x \<noteq> Nil \<and> eval n c (Car (Car x)) = Some (Inr v, c1) \<longrightarrow>
        evcon (Suc n) c x =
          (if v = constT then eval n c1 (Car (Cdr (Car x))) else evcon n c1 (Cdr x)))
   \<and> (x \<noteq> Nil \<and> eval n c (Car (Car x)) = Some (Inl s, c1) \<longrightarrow>
        evcon (Suc n) c x = Some (Inl s, c1))
   \<and> (isTrue v \<longleftrightarrow> v = constT)
   \<and> \<not> isTrue Nil \<and> \<not> isTrue constNIL \<and> \<not> isTrue constF \<and> \<not> isTrue (Atom (number k))"
proof (intro conjI impI)
  show "evcon (Suc n) c Nil = Some (Inl (Error NoTrueCaseInCond), c)"
    by (simp add: evcon_Suc)
  show "isTrue v \<longleftrightarrow> v = constT"
    by (rule isTrue_iff)
  show "\<not> isTrue Nil" by simp
  show "\<not> isTrue constNIL" "\<not> isTrue constF" "\<not> isTrue (Atom (number k))"
    by (simp_all add: constNIL_def constF_def atomExpr_def tok_defs)
next
  assume "x \<noteq> Nil \<and> eval n c (Car (Car x)) = Some (Inr v, c1)"
  then show "evcon (Suc n) c x =
          (if v = constT then eval n c1 (Car (Cdr (Car x))) else evcon n c1 (Cdr x))"
    by (simp add: evcon_Suc isTrue_iff)
next
  assume "x \<noteq> Nil \<and> eval n c (Car (Car x)) = Some (Inl s, c1)"
  then show "evcon (Suc n) c x = Some (Inl s, c1)"
    by (simp add: evcon_Suc)
qed

theorem evcon_first_true_clause_witness:
  "condFT \<noteq> Nil \<and>
   eval 2 (NewContext 0) (Car (Car condFT)) = Some (Inr constF, NewContext 0) \<and>
   constF \<noteq> constT \<and>
   evcon 3 (NewContext 0) condFT = evcon 2 (NewContext 0) (Cdr condFT) \<and>
   evcon 3 (NewContext 0) condFT = Some (Inr (Atom exB), NewContext 0)"
proof -
  have x: "condFT \<noteq> Nil"
    by (simp add: condFT_def)
  have t: "eval 2 (NewContext 0) (Car (Car condFT)) = Some (Inr constF, NewContext 0)"
    by (simp add: condFT_def run_simps ctx_defs tok_defs eval_nat_numeral)
  have ne: "constF \<noteq> constT"
    by (simp add: constF_def constT_def atomExpr_def tok_defs)
  have r: "evcon 2 (NewContext 0) (Cdr condFT) = Some (Inr (Atom exB), NewContext 0)"
    by (simp add: condFT_def run_simps ctx_defs tok_defs eval_nat_numeral)
  from evcon_first_true_clause [where n = 2 and c = "NewContext 0" and x = condFT
      and v = constF and ?c1.0 = "NewContext 0"] x t ne r
  show ?thesis
    by (simp add: eval_nat_numeral)
qed

lemmas elem_defs =
  callElem_def atomFunc_def nullFunc_def carFunc_def cdrFunc_def consFunc_def eqFunc_def

lemma nil_prints:
  "String False Nil = runes ''nil'' \<and> String False constNIL = runes ''nil'' \<and>
   String True Nil = runes ''nil'' \<and> String True constNIL = runes ''nil''"
  by (simp add: String_def constNIL_def atomExpr_def tokenString_def tok_defs)

lemma nil_forms_parsed:
  "map_option fst (List asciiLetter 6 (NewParser initAtoms (runes ''(atom nil)''))) =
     Some (Inr atomOfNil)
   \<and> map_option fst (List asciiLetter 6 (NewParser initAtoms (runes ''(null nil)''))) =
     Some (Inr nullOfNil)
   \<and> map_option fst (List asciiLetter 6 (NewParser initAtoms (runes ''(null '())''))) =
     Some (Inr nullOfEmpty)
   \<and> map_option fst (List asciiLetter 6 (NewParser initAtoms (runes ''(atom '())''))) =
     Some (Inr atomOfEmpty)"
  by code_simp

text \<open>
  Claim C9. In a fresh context whose depth limit is off or at least 2, the constant
  \<open>nil\<close> evaluates to an atom, which is not the empty expression, though both are
  printed \<open>nil\<close>: \<open>(atom nil)\<close> is \<open>T\<close> and \<open>(null nil)\<close> is \<open>F\<close>, whereas for the
  quoted empty list \<open>'()\<close>, \<open>(null '())\<close> is \<open>T\<close> and \<open>(atom '())\<close> is \<open>F\<close>. Four
  units of fuel are enough. The four expressions are what the list parser reads from
  these texts.
\<close>

theorem nil_constant_is_an_atom:
  assumes "\<not> 0 <s depth \<or> 2 \<le>s depth"
  shows "Eval n (NewContext depth) (Atom tokNil) = Some (Inr constNIL, NewContext depth)
    \<and> constNIL \<noteq> Nil \<and> getAtom constNIL = Some tokNil
    \<and> String False constNIL = runes ''nil'' \<and> String False Nil = runes ''nil''
    \<and> Eval (Suc (Suc (Suc (Suc n)))) (NewContext depth) atomOfNil =
          Some (Inr constT, afterCalls depth 2)
    \<and> Eval (Suc (Suc (Suc (Suc n)))) (NewContext depth) nullOfNil =
          Some (Inr constF, afterCalls depth 2)
    \<and> Eval (Suc (Suc (Suc (Suc n)))) (NewContext depth) nullOfEmpty =
          Some (Inr constT, afterCalls depth 2)
    \<and> Eval (Suc (Suc (Suc (Suc n)))) (NewContext depth) atomOfEmpty =
          Some (Inr constF, afterCalls depth 2)
    \<and> map_option fst (List asciiLetter 6 (NewParser initAtoms (runes ''(atom nil)''))) =
          Some (Inr atomOfNil)
    \<and> map_option fst (List asciiLetter 6 (NewParser initAtoms (runes ''(null nil)''))) =
          Some (Inr nullOfNil)
    \<and> map_option fst (List asciiLetter 6 (NewParser initAtoms (runes ''(null '())''))) =
          Some (Inr nullOfEmpty)
    \<and> map_option fst (List asciiLetter 6 (NewParser initAtoms (runes ''(atom '())''))) =
          Some (Inr atomOfEmpty)"
proof -
  have ev: "Eval n (NewContext depth) (Atom tokNil) = Some (Inr constNIL, NewContext depth)
    \<and> constNIL \<noteq> Nil \<and> getAtom constNIL = Some tokNil
    \<and> Eval (Suc (Suc (Suc (Suc n)))) (NewContext depth) atomOfNil =
          Some (Inr constT, afterCalls depth 2)
    \<and> Eval (Suc (Suc (Suc (Suc n)))) (NewContext depth) nullOfNil =
          Some (Inr constF, afterCalls depth 2)
    \<and> Eval (Suc (Suc (Suc (Suc n)))) (NewContext depth) nullOfEmpty =
          Some (Inr constT, afterCalls depth 2)
    \<and> Eval (Suc (Suc (Suc (Suc n)))) (NewContext depth) atomOfEmpty =
          Some (Inr constF, afterCalls depth 2)"
  proof (cases "0 <s depth")
    case False
    then show ?thesis
      by (simp add: Eval_def atomOfNil_def nullOfNil_def nullOfEmpty_def atomOfEmpty_def
          quotedEmpty_def afterCalls_def run_simps ctx_defs elem_defs tok_defs)
  next
    case True
    then have "2 \<le>s depth" using assms by simp
    then have "\<not> sint depth < 1" "\<not> sint depth < 2"
      by (simp_all add: word_sle_eq)
    then show ?thesis using True
      by (simp add: Eval_def atomOfNil_def nullOfNil_def nullOfEmpty_def atomOfEmpty_def
          quotedEmpty_def afterCalls_def run_simps ctx_defs elem_defs tok_defs)
  qed
  show ?thesis
    using ev nil_prints nil_forms_parsed by blast
qed

theorem nil_constant_is_an_atom_witness:
  "Eval 4 (NewContext 100000) atomOfNil = Some (Inr constT, afterCalls 100000 2) \<and>
   Eval 4 (NewContext 100000) nullOfNil = Some (Inr constF, afterCalls 100000 2) \<and>
   Eval 4 (NewContext 100000) nullOfEmpty = Some (Inr constT, afterCalls 100000 2) \<and>
   Eval 4 (NewContext 100000) atomOfEmpty = Some (Inr constF, afterCalls 100000 2) \<and>
   scope (afterCalls 100000 2) = scope (NewContext 100000)"
proof -
  have d: "\<not> 0 <s (100000 :: 64 word) \<or> 2 \<le>s (100000 :: 64 word)"
    by (simp add: word_sle_eq)
  from nil_constant_is_an_atom [OF d, of 0]
  show ?thesis
    by (simp add: eval_nat_numeral afterCalls_def)
qed
















section \<open>Reading runes and tokens\<close>

lemma lexAt_fresh: "\<not> peeking l \<Longrightarrow> lexAt l (rd l)"
  by (simp add: lexAt_def)

lemma read_lexAt_Cons:
  assumes "lexAt l (x # s)" "x \<noteq> EofRune"
  shows "\<exists>l1. read l = (x, l1) \<and> lexAt l1 s \<and> \<not> peeking l1 \<and> rd l1 = s \<and>
           buf l1 = buf l \<and> atoms l1 = atoms l"
  using assms by (auto simp: lexAt_def read_def nextRune_def)

lemma read_lexAt_Nil:
  assumes "lexAt l []"
  shows "\<exists>l1. read l = (EofRune, l1) \<and> lexAt l1 [] \<and> \<not> peeking l1 \<and> rd l1 = [] \<and>
           buf l1 = buf l \<and> atoms l1 = atoms l"
  using assms by (auto simp: lexAt_def read_def nextRune_def)

lemma peek_lexAt_Cons:
  assumes "lexAt l (x # s)" "x \<noteq> EofRune"
  shows "\<exists>l1. peek l = (x, l1) \<and> lexAt l1 (x # s) \<and> buf l1 = buf l \<and> atoms l1 = atoms l"
  using assms by (auto simp: lexAt_def peek_def read_def nextRune_def)

lemma peek_lexAt_Nil:
  assumes "lexAt l []"
  shows "\<exists>l1. peek l = (EofRune, l1) \<and> lexAt l1 [] \<and> buf l1 = buf l \<and> atoms l1 = atoms l"
  using assms by (auto simp: lexAt_def peek_def read_def nextRune_def)

lemma lexAt_buf: "lexAt (l\<lparr>buf := b\<rparr>) s = lexAt l s"
  by (simp add: lexAt_def)

lemma lexAt_atoms: "lexAt (l\<lparr>atoms := b\<rparr>) s = lexAt l s"
  by (simp add: lexAt_def)

lemma accumLoop_run:
  assumes "\<forall>d \<in> set ds. valid d \<and> d \<noteq> EofRune"
    and "rest = [] \<or> (\<not> valid (hd rest) \<and> hd rest \<noteq> EofRune)"
    and "lexAt l (ds @ rest)"
  shows "lexAt (accumLoop valid l r) rest \<and> buf (accumLoop valid l r) = buf l @ r # ds \<and>
         atoms (accumLoop valid l r) = atoms l"
  using assms
proof (induction ds arbitrary: l r)
  case Nil
  show ?case
  proof (cases rest)
    case Nil
    then obtain l1 where "read (l\<lparr>buf := buf l @ [r]\<rparr>) = (EofRune, l1)" "lexAt l1 []"
        "buf l1 = buf l @ [r]" "atoms l1 = atoms l"
      using read_lexAt_Nil [of "l\<lparr>buf := buf l @ [r]\<rparr>"] Nil.prems(3)
      by (auto simp: lexAt_buf)
    then show ?thesis
      using Nil by (subst (1 2 3) accumLoop.simps) simp
  next
    case (Cons x xs)
    then have x: "\<not> valid x" "x \<noteq> EofRune" using Nil.prems(2) by auto
    obtain l1 where l1: "read (l\<lparr>buf := buf l @ [r]\<rparr>) = (x, l1)" "\<not> peeking l1" "rd l1 = xs"
        "buf l1 = buf l @ [r]" "atoms l1 = atoms l"
      using read_lexAt_Cons [of "l\<lparr>buf := buf l @ [r]\<rparr>" x xs] Nil.prems(3) x Cons
      by (auto simp: lexAt_buf)
    have "accumLoop valid l r = back' l1 x"
      using l1 x by (subst accumLoop.simps) simp
    then show ?thesis
      using l1 x Cons by (simp add: back'_def lexAt_def)
  qed
next
  case (Cons d ds)
  then have d: "valid d" "d \<noteq> EofRune" by auto
  obtain l1 where l1: "read (l\<lparr>buf := buf l @ [r]\<rparr>) = (d, l1)" "lexAt l1 (ds @ rest)"
      "buf l1 = buf l @ [r]" "atoms l1 = atoms l"
    using read_lexAt_Cons [of "l\<lparr>buf := buf l @ [r]\<rparr>" d "ds @ rest"] Cons.prems(3) d
    by (auto simp: lexAt_buf)
  have step: "accumLoop valid l r = accumLoop valid l1 d"
    using l1 d by (subst accumLoop.simps) simp
  have "lexAt (accumLoop valid l1 d) rest \<and> buf (accumLoop valid l1 d) = buf l1 @ d # ds \<and>
         atoms (accumLoop valid l1 d) = atoms l1"
    using Cons.IH [of l1 d] Cons.prems l1 by simp
  then show ?case
    using step l1 by simp
qed

lemma accum_run:
  assumes "\<forall>d \<in> set ds. valid d \<and> d \<noteq> EofRune"
    and "rest = [] \<or> (\<not> valid (hd rest) \<and> hd rest \<noteq> EofRune)"
    and "lexAt l (ds @ rest)"
  shows "lexAt (accum valid l r) rest \<and> buf (accum valid l r) = r # ds \<and>
         atoms (accum valid l r) = atoms l"
  using accumLoop_run [of ds valid rest "l\<lparr>buf := []\<rparr>" r] assms
  by (simp add: accum_def lexAt_buf)

lemma letterTable_not:
  assumes "letterTable isL"
  shows "\<not> isL EofRune" "isSpace r \<Longrightarrow> \<not> isL r" "isNumber' r \<Longrightarrow> \<not> isL r"
    "\<not> isL (of_char CHR '';'')" "\<not> isL (of_char CHR ''('')" "\<not> isL (of_char CHR '')'')"
    "\<not> isL (of_char CHR ''.'')" "\<not> isL (of_char CHR ''-'')" "\<not> isL (of_char CHR ''+'')"
    "\<not> isL 39" "\<not> isL (of_char CHR ''_'')"
  using assms unfolding letterTable_def by blast+

lemma endToken_ok:
  assumes "lexAt l rest" "endOK rest" "letterTable isL"
  shows "\<exists>l1. endToken isL l = (Inr (), l1) \<and> lexAt l1 rest \<and> buf l1 = buf l \<and>
           atoms l1 = atoms l"
proof (cases rest)
  case Nil
  then obtain l1 where "peek l = (EofRune, l1)" "lexAt l1 []" "buf l1 = buf l"
      "atoms l1 = atoms l"
    using peek_lexAt_Nil assms(1) by blast
  moreover have "\<not> isAlphanum isL EofRune"
    using letterTable_not(1) [OF assms(3)]
    by (simp add: isAlphanum_def isNumber'_def EofRune_def)
  ultimately show ?thesis
    using Nil by (simp add: endToken_def)
next
  case (Cons x xs)
  then have sep: "isSpace x \<or> x = of_char CHR ''('' \<or> x = of_char CHR '')'' \<or> x = of_char CHR ''.''"
    using assms(2) by (simp add: endOK_def)
  then have x: "x \<noteq> EofRune"
    by (auto simp: isSpace_def EofRune_def)
  obtain l1 where l1: "peek l = (x, l1)" "lexAt l1 (x # xs)" "buf l1 = buf l"
      "atoms l1 = atoms l"
    using peek_lexAt_Cons assms(1) x Cons by blast
  have "\<not> isL x"
    using sep letterTable_not [OF assms(3)] by auto
  then have "\<not> isAlphanum isL x"
    using sep by (auto simp: isAlphanum_def isNumber'_def isSpace_def)
  then show ?thesis
    using l1 Cons sep by (auto simp: endToken_def)
qed

lemma endToken_letter:
  assumes "lexAt l (x # xs)" "isAlphanum isL x" "x \<noteq> EofRune"
  shows "\<exists>l1. endToken isL l = (Inl (Error (InvalidTokenAfter (buf l))), l1)"
proof -
  obtain l1 where l1: "peek l = (x, l1)" "buf l1 = buf l"
    using peek_lexAt_Cons assms by blast
  then show ?thesis using assms(2) by (simp add: endToken_def)
qed

lemma digit_facts:
  assumes "isNumber' d"
  shows "d \<noteq> EofRune" "\<not> isSpace d" "d \<noteq> of_char CHR '';''" "d \<noteq> 10" "d \<noteq> of_char CHR ''(''"
    "d \<noteq> of_char CHR '')''" "d \<noteq> of_char CHR ''.''" "d \<noteq> of_char CHR ''-''" "d \<noteq> of_char CHR ''+''"
    "digitVal d = Some (nat (d - of_char CHR ''0''))" "nat (d - of_char CHR ''0'') < 10"
  using assms by (auto simp: isNumber'_def EofRune_def isSpace_def digitVal_def)

lemma endOK_not_digit: "endOK rest \<Longrightarrow> rest = [] \<or> (\<not> isNumber' (hd rest) \<and> hd rest \<noteq> EofRune)"
  by (auto simp: endOK_def isNumber'_def isSpace_def EofRune_def)

lemma lexToken_number:
  "lexToken l tokenNumber s =
     (case SetString0 s of
        None \<Rightarrow> Inl (Error (BadNumberSyntax s))
      | Some n \<Rightarrow> Inr (number n), l)"
  by (simp add: lexToken_def mkToken_def split: option.splits)

lemma lexNumber_run:
  assumes "letterTable isL" "\<forall>d \<in> set ds. isNumber' d" "lexAt l (ds @ rest)" "endOK rest"
  shows "\<exists>l1. lexNumber isL l r =
           (case SetString0 (r # ds) of
              None \<Rightarrow> Inl (Error (BadNumberSyntax (r # ds)))
            | Some n \<Rightarrow> Inr (number n), l1) \<and>
         lexAt l1 rest \<and> atoms l1 = atoms l"
proof -
  have d: "\<forall>d \<in> set ds. isNumber' d \<and> d \<noteq> EofRune"
    using assms(2) digit_facts(1) by blast
  have a: "lexAt (accum isNumber' l r) rest \<and> buf (accum isNumber' l r) = r # ds \<and>
         atoms (accum isNumber' l r) = atoms l"
    using accum_run [OF d endOK_not_digit [OF assms(4)] assms(3)] .
  then obtain l1 where l1: "endToken isL (accum isNumber' l r) = (Inr (), l1)" "lexAt l1 rest"
      "buf l1 = r # ds" "atoms l1 = atoms l"
    using endToken_ok [of "accum isNumber' l r" rest isL] assms(1,4) by auto
  show ?thesis
    using l1 by (auto simp: lexNumber_def lexToken_number split: option.splits)
qed

lemma lexNumber_letter:
  assumes "\<forall>d \<in> set ds. isNumber' d" "lexAt l (ds @ x # xs)" "isL x" "\<not> isNumber' x"
    "x \<noteq> EofRune"
  shows "\<exists>l1. lexNumber isL l r = (Inl (Error (InvalidTokenAfter (r # ds))), l1)"
proof -
  have d: "\<forall>d \<in> set ds. isNumber' d \<and> d \<noteq> EofRune"
    using assms(1) digit_facts(1) by blast
  have a: "lexAt (accum isNumber' l r) (x # xs) \<and> buf (accum isNumber' l r) = r # ds"
    using accum_run [OF d _ assms(2)] assms(4,5) by simp
  then show ?thesis
    using endToken_letter [of "accum isNumber' l r" x xs isL] assms(3,5)
    by (auto simp: lexNumber_def isAlphanum_def)
qed

lemma lexNext_digit:
  assumes "lexAt l (d # s)" "isNumber' d"
  shows "\<exists>l1. lexNext isL l = lexNumber isL l1 d \<and> lexAt l1 s \<and> atoms l1 = atoms l"
proof -
  obtain l1 where l1: "read l = (d, l1)" "lexAt l1 s" "atoms l1 = atoms l"
    using read_lexAt_Cons [OF assms(1) digit_facts(1) [OF assms(2)]] by blast
  have "lexNext isL l = lexNumber isL l1 d"
    using l1(1) digit_facts [OF assms(2)] assms(2) by (subst lexNext.simps) simp
  then show ?thesis using l1 by blast
qed

lemma lexNext_sign:
  assumes "lexAt l (sg # d # s)" "sg = of_char CHR ''-'' \<or> sg = of_char CHR ''+''" "isNumber' d"
  shows "\<exists>l1. lexNext isL l = lexNumber isL l1 sg \<and> lexAt l1 (d # s) \<and> atoms l1 = atoms l"
proof -
  have sg: "sg \<noteq> EofRune" "\<not> isSpace sg" "sg \<noteq> of_char CHR '';''" "sg \<noteq> 10"
      "sg \<noteq> of_char CHR ''(''" "sg \<noteq> of_char CHR '')''" "sg \<noteq> of_char CHR ''.''"
    using assms(2) by (auto simp: EofRune_def isSpace_def)
  obtain l1 where l1: "read l = (sg, l1)" "lexAt l1 (d # s)" "atoms l1 = atoms l"
    using read_lexAt_Cons [OF assms(1) sg(1)] by blast
  obtain l2 where l2: "peek l1 = (d, l2)" "lexAt l2 (d # s)" "atoms l2 = atoms l1"
    using peek_lexAt_Cons [OF l1(2) digit_facts(1) [OF assms(3)]] by blast
  have "lexNext isL l = lexNumber isL l2 sg"
    using l1(1) l2(1) sg assms(2,3) by (subst lexNext.simps) auto
  then show ?thesis using l1 l2 by auto
qed

section \<open>Number literals\<close>

lemma scanDigits_ok:
  "\<forall>d \<in> set ds. isNumber' d \<and> nat (d - of_char CHR ''0'') < b \<Longrightarrow>
     scanDigits b ds acc = Some (foldl (\<lambda>acc d. acc * b + nat (d - of_char CHR ''0'')) acc ds)"
  by (induction ds arbitrary: acc) (auto simp: digit_facts(10))

lemma scanDigits_bad:
  "\<forall>d \<in> set ds. isNumber' d \<Longrightarrow> \<exists>d \<in> set ds. \<not> nat (d - of_char CHR ''0'') < b \<Longrightarrow>
     scanDigits b ds acc = None"
  by (induction ds arbitrary: acc) (auto simp: digit_facts(10))

lemma digitsValue_leading_zero:
  "digitsValue b (of_char CHR ''0'' # ds) = digitsValue b ds"
  by (simp add: digitsValue_def)

lemma natSetString0_digits:
  assumes "ds \<noteq> []" "\<forall>d \<in> set ds. isNumber' d"
  shows "length ds = 1 \<or> hd ds \<noteq> of_char CHR ''0'' \<Longrightarrow>
           natSetString0 ds = Some (digitsValue 10 ds)"
    and "1 < length ds \<Longrightarrow> hd ds = of_char CHR ''0'' \<Longrightarrow> \<forall>d \<in> set ds. d \<le> of_char CHR ''7'' \<Longrightarrow>
           natSetString0 ds = Some (digitsValue 8 ds)"
    and "1 < length ds \<Longrightarrow> hd ds = of_char CHR ''0'' \<Longrightarrow> \<not> (\<forall>d \<in> set ds. d \<le> of_char CHR ''7'') \<Longrightarrow>
           natSetString0 ds = None"
proof -
  have ten: "\<forall>d \<in> set ds. isNumber' d \<and> nat (d - of_char CHR ''0'') < 10"
    using assms(2) digit_facts(11) by blast
  show "natSetString0 ds = Some (digitsValue 10 ds)"
    if "length ds = 1 \<or> hd ds \<noteq> of_char CHR ''0''"
  proof -
    have "natSetString0 ds = scanBase 10 ds"
      using that by (auto simp: natSetString0_def)
    then show ?thesis
      using assms(1) scanDigits_ok [OF ten, of 0] by (simp add: scanBase_def digitsValue_def)
  qed
  assume len: "1 < length ds" and z: "hd ds = of_char CHR ''0''"
  then obtain d2 ds' where ds: "ds = of_char CHR ''0'' # d2 # ds'"
    by (cases ds; cases "tl ds") auto
  have d2: "isNumber' d2" using assms(2) ds by simp
  then have "d2 \<noteq> of_char CHR ''x''" "d2 \<noteq> of_char CHR ''X''" "d2 \<noteq> of_char CHR ''b''"
    "d2 \<noteq> of_char CHR ''B''" "d2 \<noteq> of_char CHR ''o''" "d2 \<noteq> of_char CHR ''O''"
    by (auto simp: isNumber'_def)
  then have oct: "natSetString0 ds = scanDigits 8 (d2 # ds') 0"
    by (simp add: natSetString0_def ds scanBase_def)
  show "natSetString0 ds = Some (digitsValue 8 ds)" if "\<forall>d \<in> set ds. d \<le> of_char CHR ''7''"
  proof -
    have "\<forall>d \<in> set (d2 # ds'). isNumber' d \<and> nat (d - of_char CHR ''0'') < 8"
      using assms(2) that ds by (auto simp: isNumber'_def)
    from scanDigits_ok [OF this, of 0] show ?thesis
      using oct by (simp add: ds digitsValue_def)
  qed
  show "natSetString0 ds = None" if bad: "\<not> (\<forall>d \<in> set ds. d \<le> of_char CHR ''7'')"
  proof -
    obtain d where d: "d \<in> set ds" "\<not> d \<le> of_char CHR ''7''"
      using bad by blast
    then have "d \<in> set (d2 # ds')" "\<not> nat (d - of_char CHR ''0'') < 8"
      using ds by auto
    then have "\<exists>d \<in> set (d2 # ds'). \<not> nat (d - of_char CHR ''0'') < 8"
      by blast
    moreover have "\<forall>d \<in> set (d2 # ds'). isNumber' d"
      using assms(2) ds by simp
    ultimately show ?thesis
      using oct scanDigits_bad [of "d2 # ds'" 8 0] by simp
  qed
qed

lemma SetString0_signed:
  assumes "ds \<noteq> []" "\<forall>d \<in> set ds. isNumber' d"
    "sg = [] \<or> sg = [of_char CHR ''+''] \<or> sg = [of_char CHR ''-'']"
  shows "SetString0 (sg @ ds) = map_option (\<lambda>n. signOf sg * int n) (natSetString0 ds)"
proof -
  obtain d ds' where ds: "ds = d # ds'" using assms(1) by (cases ds) auto
  then have "isNumber' d" using assms(2) by simp
  then have "d \<noteq> of_char CHR ''-''" "d \<noteq> of_char CHR ''+''"
    using digit_facts by blast+
  then show ?thesis
    using assms(3) by (auto simp: SetString0_def signOf_def ds option.map_comp comp_def
        intro!: option.map_cong)
qed

lemma sign_cases:
  assumes "sg = [] \<or> sg = [of_char CHR ''+''] \<or> sg = [of_char CHR ''-'']"
  obtains "sg = []" | s where "sg = [s]" "s = of_char CHR ''-'' \<or> s = of_char CHR ''+''"
  using assms by auto

lemma lexNext_literal:
  assumes "letterTable isL" "ds \<noteq> []" "\<forall>d \<in> set ds. isNumber' d"
    "sg = [] \<or> sg = [of_char CHR ''+''] \<or> sg = [of_char CHR ''-'']"
    "endOK rest" "lexAt l (sg @ ds @ rest)"
  shows "\<exists>l1. lexNext isL l =
           (case SetString0 (sg @ ds) of
              None \<Rightarrow> Inl (Error (BadNumberSyntax (sg @ ds)))
            | Some n \<Rightarrow> Inr (number n), l1) \<and>
         lexAt l1 rest \<and> atoms l1 = atoms l"
proof -
  obtain d ds' where ds: "ds = d # ds'" using assms(2) by (cases ds) auto
  from assms(4) show ?thesis
  proof (cases rule: sign_cases)
    case 1
    obtain l1 where l1: "lexNext isL l = lexNumber isL l1 d" "lexAt l1 (ds' @ rest)"
        "atoms l1 = atoms l"
      using lexNext_digit [of l d "ds' @ rest" isL] assms(3,6) 1 ds by auto
    have eq: "sg @ ds = d # ds'" using 1 ds by simp
    show ?thesis
      unfolding eq
      using lexNumber_run [OF assms(1) _ l1(2) assms(5), of d] assms(3) l1 ds by auto
  next
    case (2 s)
    obtain l1 where l1: "lexNext isL l = lexNumber isL l1 s" "lexAt l1 (ds @ rest)"
        "atoms l1 = atoms l"
      using lexNext_sign [of l s d "ds' @ rest" isL] assms(3,6) 2 ds by auto
    have eq: "sg @ ds = s # ds" using 2 by simp
    show ?thesis
      unfolding eq
      using lexNumber_run [OF assms(1) assms(3) l1(2) assms(5), of s] l1 by auto
  qed
qed

lemma lexNext_hex:
  assumes "sg = [] \<or> sg = [of_char CHR ''+''] \<or> sg = [of_char CHR ''-'']"
    "isL x" "\<not> isNumber' x" "x \<noteq> EofRune" "lexAt l (sg @ of_char CHR ''0'' # x # xs)"
  shows "fst (lexNext isL l) = Inl (Error (InvalidTokenAfter (sg @ [of_char CHR ''0''])))"
proof -
  have z: "isNumber' (of_char CHR ''0'')" by (simp add: isNumber'_def)
  from assms(1) show ?thesis
  proof (cases rule: sign_cases)
    case 1
    obtain l1 where l1: "lexNext isL l = lexNumber isL l1 (of_char CHR ''0'')" "lexAt l1 (x # xs)"
      using lexNext_digit [of l "of_char CHR ''0''" "x # xs" isL] assms(5) 1 z by auto
    show ?thesis
      using lexNumber_letter [of "[]" l1 x xs isL "of_char CHR ''0''"] assms(2,3,4) l1 1 by auto
  next
    case (2 s)
    obtain l1 where l1: "lexNext isL l = lexNumber isL l1 s"
        "lexAt l1 (of_char CHR ''0'' # x # xs)"
      using lexNext_sign [of l s "of_char CHR ''0''" "x # xs" isL] assms(5) 2 z by auto
    show ?thesis
      using lexNumber_letter [of "[of_char CHR ''0'']" l1 x xs isL s] assms(2,3,4) l1 2 z
      by auto
  qed
qed

text \<open>
  Claim C5, as amended. The lexer reads as a number an optional sign and decimal digits,
  followed by a space, a parenthesis, a dot or the end of input. The token's value is
  what \<open>SetString\<close> with base 0 makes of that text: the decimal value, or, when the digits
  start with \<open>0\<close> and more follow, the octal value; when such digits are not all octal,
  the lexer raises "bad number syntax". A literal with the prefix \<open>0x\<close> is not accepted:
  the digits stop at the letter and the lexer raises "invalid token after 0".
\<close>

theorem lexNext_number_literal:
  assumes "letterTable isL" "ds \<noteq> []" "\<forall>d \<in> set ds. isNumber' d"
    "sg = [] \<or> sg = [of_char CHR ''+''] \<or> sg = [of_char CHR ''-'']"
    "endOK rest" "\<not> peeking l" "rd l = sg @ ds @ rest"
  shows "fst (lexNext isL l) =
           (case SetString0 (sg @ ds) of
              None \<Rightarrow> Inl (Error (BadNumberSyntax (sg @ ds)))
            | Some n \<Rightarrow> Inr (number n))
    \<and> (length ds = 1 \<or> hd ds \<noteq> of_char CHR ''0'' \<longrightarrow>
          SetString0 (sg @ ds) = Some (signOf sg * int (digitsValue 10 ds)))
    \<and> (1 < length ds \<and> hd ds = of_char CHR ''0'' \<and> (\<forall>d \<in> set ds. d \<le> of_char CHR ''7'') \<longrightarrow>
          SetString0 (sg @ ds) = Some (signOf sg * int (digitsValue 8 ds)))
    \<and> (1 < length ds \<and> hd ds = of_char CHR ''0'' \<and> \<not> (\<forall>d \<in> set ds. d \<le> of_char CHR ''7'') \<longrightarrow>
          SetString0 (sg @ ds) = None)
    \<and> (\<forall>(l'::lexer) x xs. \<not> peeking l' \<and> rd l' = sg @ of_char CHR ''0'' # x # xs \<and> isL x \<longrightarrow>
          fst (lexNext isL l') = Inl (Error (InvalidTokenAfter (sg @ [of_char CHR ''0'']))))"
proof (intro conjI impI allI)
  have "lexAt l (sg @ ds @ rest)"
    using assms(6,7) by (simp add: lexAt_def)
  from lexNext_literal [OF assms(1-5) this]
  show "fst (lexNext isL l) =
           (case SetString0 (sg @ ds) of
              None \<Rightarrow> Inl (Error (BadNumberSyntax (sg @ ds)))
            | Some n \<Rightarrow> Inr (number n))"
    by auto
next
  assume "length ds = 1 \<or> hd ds \<noteq> of_char CHR ''0''"
  then show "SetString0 (sg @ ds) = Some (signOf sg * int (digitsValue 10 ds))"
    using SetString0_signed [OF assms(2,3,4)] natSetString0_digits(1) [OF assms(2,3)] by simp
next
  assume "1 < length ds \<and> hd ds = of_char CHR ''0'' \<and> (\<forall>d \<in> set ds. d \<le> of_char CHR ''7'')"
  then show "SetString0 (sg @ ds) = Some (signOf sg * int (digitsValue 8 ds))"
    using SetString0_signed [OF assms(2,3,4)] natSetString0_digits(2) [OF assms(2,3)] by simp
next
  assume "1 < length ds \<and> hd ds = of_char CHR ''0'' \<and> \<not> (\<forall>d \<in> set ds. d \<le> of_char CHR ''7'')"
  then show "SetString0 (sg @ ds) = None"
    using SetString0_signed [OF assms(2,3,4)] natSetString0_digits(3) [OF assms(2,3)] by simp
next
  fix l' :: lexer and x xs
  assume h: "\<not> peeking l' \<and> rd l' = sg @ of_char CHR ''0'' # x # xs \<and> isL x"
  then have at: "lexAt l' (sg @ of_char CHR ''0'' # x # xs)"
    by (simp add: lexAt_def)
  have "\<not> isNumber' x" "x \<noteq> EofRune"
    using h letterTable_not(1,3) [OF assms(1)] by auto
  then show "fst (lexNext isL l') = Inl (Error (InvalidTokenAfter (sg @ [of_char CHR ''0''])))"
    using lexNext_hex [OF assms(4) _ _ _ at] h by simp
qed

lemma letterTable_asciiLetter: "letterTable asciiLetter"
  by (auto simp: letterTable_def asciiLetter_def EofRune_def isSpace_def isNumber'_def)

text \<open>Claim C5 as stated fails: on the hexadecimal literal \<open>0x1F\<close> the lexer raises
  "invalid token after 0" instead of yielding the number 31.\<close>

theorem hex_literal_counterexample:
  "fst (lexNext asciiLetter (newLexer initAtoms (runes ''0x1F''))) =
     Inl (Error (InvalidTokenAfter (runes ''0'')))"
proof -
  have "lexAt (newLexer initAtoms (runes ''0x1F'')) ([] @ of_char CHR ''0'' # of_char CHR ''x'' # runes ''1F'')"
    by (simp add: lexAt_def newLexer_def runes_def)
  from lexNext_hex [OF _ _ _ _ this, of asciiLetter]
  show ?thesis
    by (simp add: asciiLetter_def isNumber'_def EofRune_def runes_def)
qed

theorem lexNext_number_literal_witness:
  "fst (lexNext asciiLetter (newLexer initAtoms (runes ''-017)''))) = Inr (number (- 15)) \<and>
   fst (lexNext asciiLetter (newLexer initAtoms (runes ''-0x1F''))) =
     Inl (Error (InvalidTokenAfter (runes ''-0'')))"
proof -
  have a: "runes ''017'' \<noteq> []" "\<forall>d \<in> set (runes ''017''). isNumber' d"
    "runes ''-'' = [] \<or> runes ''-'' = [of_char CHR ''+''] \<or> runes ''-'' = [of_char CHR ''-'']"
    "endOK (runes '')'')" "\<not> peeking (newLexer initAtoms (runes ''-017)''))"
    "rd (newLexer initAtoms (runes ''-017)'')) = runes ''-'' @ runes ''017'' @ runes '')''"
    by (simp_all add: runes_def isNumber'_def endOK_def newLexer_def)
  have v: "1 < length (runes ''017'') \<and> hd (runes ''017'') = of_char CHR ''0'' \<and>
      (\<forall>d \<in> set (runes ''017''). d \<le> of_char CHR ''7'')"
    "signOf (runes ''-'') * int (digitsValue 8 (runes ''017'')) = - 15"
    by (simp_all add: runes_def signOf_def digitsValue_def)
  have h: "\<not> peeking (newLexer initAtoms (runes ''-0x1F'')) \<and>
      rd (newLexer initAtoms (runes ''-0x1F'')) =
        runes ''-'' @ of_char CHR ''0'' # of_char CHR ''x'' # runes ''1F'' \<and>
      asciiLetter (of_char CHR ''x'')"
    by (simp add: runes_def newLexer_def asciiLetter_def)
  from lexNext_number_literal [OF letterTable_asciiLetter a] v h
  show ?thesis
    by (auto simp: runes_def)
qed

section \<open>The signals of the lexer and the parser\<close>







section \<open>The parser's equations, in the shape of the source\<close>

lemmas parser_defs = SExpr_def quote_def List_def lparList_def

lemma quote_Suc:
  "quote isL (Suc n) p =
     (case List isL n p of
        None \<Rightarrow> None
      | Some (Inl s, p1) \<Rightarrow> Some (Inl s, p1)
      | Some (Inr x, p1) \<Rightarrow> Some (Inr (Cons (atomExpr tokQuote) (Cons x Nil)), p1))"
  unfolding parser_defs by simp

lemma List_Suc:
  "List isL (Suc n) p =
     (case parserNext isL p of
        (Inl s, p1) \<Rightarrow> Some (Inl s, p1)
      | (Inr tok, p1) \<Rightarrow>
          if tok_typ tok = TokenEOF then Some (Inl EOF, p1)
          else if tok_typ tok = tokenQuote then quote isL n p1
          else if isAtomTok tok then Some (Inr (atomExpr tok), p1)
          else if tok_typ tok = tokenLpar then
            (case lparList isL n p1 of
               None \<Rightarrow> None
             | Some (Inl s, p2) \<Rightarrow> Some (Inl s, p2)
             | Some (Inr e, p2) \<Rightarrow>
                 (case parserNext isL p2 of
                    (Inl s, p3) \<Rightarrow> Some (Inl s, p3)
                  | (Inr tok2, p3) \<Rightarrow>
                      if tok_typ tok2 = tokenRpar then Some (Inr e, p3)
                      else Some (Inl (Error (BadTokenInList tok2)), p3)))
          else Some (Inl (Error (BadTokenInList tok)), p1))"
  unfolding parser_defs by simp

lemma lparList_Suc:
  "lparList isL (Suc n) p =
     (case parserNext isL p of
        (Inl s, p1) \<Rightarrow> Some (Inl s, p1)
      | (Inr tok, p1) \<Rightarrow>
          if tok_typ tok = tokenQuote then
            (case quote isL n p1 of
               None \<Rightarrow> None
             | Some (Inl s, p2) \<Rightarrow> Some (Inl s, p2)
             | Some (Inr q, p2) \<Rightarrow>
                 (case lparList isL n p2 of
                    None \<Rightarrow> None
                  | Some (Inl s, p3) \<Rightarrow> Some (Inl s, p3)
                  | Some (Inr rest, p3) \<Rightarrow> Some (Inr (Cons q rest), p3)))
          else if isAtomTok tok then
            (case lparList isL n p1 of
               None \<Rightarrow> None
             | Some (Inl s, p2) \<Rightarrow> Some (Inl s, p2)
             | Some (Inr rest, p2) \<Rightarrow> Some (Inr (Cons (atomExpr tok) rest), p2))
          else if tok_typ tok = tokenDot then List isL n p1
          else if tok_typ tok = tokenLpar then
            (case List isL n (parserBack p1 tok) of
               None \<Rightarrow> None
             | Some (Inl s, p2) \<Rightarrow> Some (Inl s, p2)
             | Some (Inr x, p2) \<Rightarrow>
                 (case lparList isL n p2 of
                    None \<Rightarrow> None
                  | Some (Inl s, p3) \<Rightarrow> Some (Inl s, p3)
                  | Some (Inr rest, p3) \<Rightarrow> Some (Inr (Cons x rest), p3)))
          else if tok_typ tok = tokenRpar then Some (Inr Nil, parserBack p1 tok)
          else Some (Inl (Error (BadTokenParsingList tok)), p1))"
  unfolding parser_defs by simp


lemma parser_0: "quote isL 0 p = None" "List isL 0 p = None" "lparList isL 0 p = None"
  "SExpr isL 0 p = None"
  unfolding parser_defs by simp_all


section \<open>Parse errors and the end of input\<close>






section \<open>The list printer and the list parser\<close>

subsection \<open>Numbers are read back\<close>

subsection \<open>Printing numbers\<close>

lemma showNat_digits: "\<forall>d \<in> set (showNat n). isNumber' d"
proof (induction n rule: showNat.induct)
  case (1 n)
  show ?case
  proof (cases "n < 10")
    case True
    then show ?thesis by (subst showNat.simps) (simp add: isNumber'_def)
  next
    case False
    have "n mod 10 < 10" by simp
    then have "isNumber' (of_char CHR ''0'' + int (n mod 10))"
      by (simp add: isNumber'_def)
    then show ?thesis
      using False "1.IH" by (subst showNat.simps) auto
  qed
qed

lemma showNat_nonempty: "showNat n \<noteq> []"
  by (subst showNat.simps) simp

lemma showNat_hd: "0 < n \<Longrightarrow> hd (showNat n) \<noteq> of_char CHR ''0''"
proof (induction n rule: showNat.induct)
  case (1 n)
  show ?case
  proof (cases "n < 10")
    case True
    then show ?thesis using "1.prems" by (subst showNat.simps) simp
  next
    case False
    then have "0 < n div 10" by simp
    then have "hd (showNat (n div 10)) \<noteq> of_char CHR ''0''"
      using "1.IH" False by simp
    then show ?thesis
      using False showNat_nonempty [of "n div 10"] by (subst showNat.simps) simp
  qed
qed

lemma showNat_value: "digitsValue 10 (showNat n) = n"
proof (induction n rule: showNat.induct)
  case (1 n)
  show ?case
  proof (cases "n < 10")
    case True
    then show ?thesis by (subst showNat.simps) (simp add: digitsValue_def)
  next
    case False
    then have "digitsValue 10 (showNat (n div 10)) = n div 10"
      using "1.IH" by simp
    then show ?thesis
      using False by (subst showNat.simps) (simp add: digitsValue_def)
  qed
qed

lemma showNat_zero: "showNat 0 = [of_char CHR ''0'']"
  by (subst showNat.simps) simp

lemma natSetString0_showNat: "natSetString0 (showNat n) = Some n"
proof -
  have "length (showNat n) = 1 \<or> hd (showNat n) \<noteq> of_char CHR ''0''"
    using showNat_hd [of n] showNat_zero by (cases "n = 0") auto
  then show ?thesis
    using natSetString0_digits(1) [OF showNat_nonempty showNat_digits, of n]
    by (simp add: showNat_value)
qed

lemma showInt_sign:
  "\<exists>sg. (sg = [] \<or> sg = [of_char CHR ''+''] \<or> sg = [of_char CHR ''-'']) \<and>
     showInt i = sg @ showNat (nat \<bar>i\<bar>) \<and> signOf sg * int (nat \<bar>i\<bar>) = i"
proof (cases "i < 0")
  case True
  then have "showInt i = [of_char CHR ''-''] @ showNat (nat \<bar>i\<bar>)"
    by (simp add: showInt_def abs_if)
  moreover have "signOf [of_char CHR ''-''] * int (nat \<bar>i\<bar>) = i"
    using True by (simp add: signOf_def)
  ultimately show ?thesis by blast
next
  case False
  then have "showInt i = [] @ showNat (nat \<bar>i\<bar>)"
    by (simp add: showInt_def abs_if)
  moreover have "signOf [] * int (nat \<bar>i\<bar>) = i"
    using False by (simp add: signOf_def)
  ultimately show ?thesis by blast
qed

lemma lexNext_showInt:
  assumes "letterTable isL" "endOK rest" "lexAt l (showInt i @ rest)"
  shows "\<exists>l1. lexNext isL l = (Inr (number i), l1) \<and> lexAt l1 rest \<and> atoms l1 = atoms l"
proof -
  obtain sg where sg: "sg = [] \<or> sg = [of_char CHR ''+''] \<or> sg = [of_char CHR ''-'']"
      "showInt i = sg @ showNat (nat \<bar>i\<bar>)" "signOf sg * int (nat \<bar>i\<bar>) = i"
    using showInt_sign by blast
  have v: "SetString0 (sg @ showNat (nat \<bar>i\<bar>)) = Some i"
    using SetString0_signed [OF showNat_nonempty showNat_digits sg(1)] sg(3)
    by (simp add: natSetString0_showNat)
  have at: "lexAt l (sg @ showNat (nat \<bar>i\<bar>) @ rest)"
    using assms(3) sg(2) by simp
  show ?thesis
    using lexNext_literal [OF assms(1) showNat_nonempty showNat_digits sg(1) assms(2) at]
    unfolding v by simp
qed

subsection \<open>Identifiers and punctuation are read back\<close>

subsection \<open>Reading identifiers and punctuation\<close>

lemma underscore_facts:
  "of_char CHR ''_'' \<noteq> EofRune" "\<not> isSpace (of_char CHR ''_'')"
  "\<not> isNumber' (of_char CHR ''_'')"
  by (simp_all add: EofRune_def isSpace_def isNumber'_def)

lemma isL_facts:
  assumes "letterTable isL" "isL r"
  shows "r \<noteq> EofRune" "\<not> isSpace r" "r \<noteq> of_char CHR '';''" "r \<noteq> 10" "r \<noteq> of_char CHR ''(''"
    "r \<noteq> of_char CHR '')''" "r \<noteq> of_char CHR ''.''" "r \<noteq> of_char CHR ''-''"
    "r \<noteq> of_char CHR ''+''" "\<not> isNumber' r" "r \<noteq> 39"
proof -
  note n = letterTable_not [OF assms(1)]
  show "r \<noteq> EofRune" using n(1) assms(2) by blast
  show "\<not> isSpace r" using n(2) assms(2) by blast
  show "r \<noteq> of_char CHR '';''" using n(4) assms(2) by blast
  have "isSpace 10" by (simp add: isSpace_def)
  then show "r \<noteq> 10" using n(2) assms(2) by blast
  show "r \<noteq> of_char CHR ''(''" using n(5) assms(2) by blast
  show "r \<noteq> of_char CHR '')''" using n(6) assms(2) by blast
  show "r \<noteq> of_char CHR ''.''" using n(7) assms(2) by blast
  show "r \<noteq> of_char CHR ''-''" using n(8) assms(2) by blast
  show "r \<noteq> of_char CHR ''+''" using n(9) assms(2) by blast
  show "\<not> isNumber' r" using n(3) assms(2) by blast
  show "r \<noteq> 39" using n(10) assms(2) by blast
qed

lemma letter_facts:
  assumes "letterTable isL" "r = of_char CHR ''_'' \<or> isL r"
  shows "r \<noteq> EofRune" "\<not> isSpace r" "r \<noteq> of_char CHR '';''" "r \<noteq> 10" "r \<noteq> of_char CHR ''(''"
    "r \<noteq> of_char CHR '')''" "r \<noteq> of_char CHR ''.''" "r \<noteq> of_char CHR ''-''"
    "r \<noteq> of_char CHR ''+''" "\<not> isNumber' r" "r \<noteq> 39"
proof -
  consider "r = of_char CHR ''_''" | "isL r" using assms(2) by blast
  then show "r \<noteq> EofRune" "\<not> isSpace r" "\<not> isNumber' r"
    using underscore_facts isL_facts(1,2,10) [OF assms(1)] by metis+
  consider "r = 95" | "isL r" using assms(2) by auto
  then show "r \<noteq> of_char CHR '';''" "r \<noteq> 10" "r \<noteq> of_char CHR ''(''"
    "r \<noteq> of_char CHR '')''" "r \<noteq> of_char CHR ''.''" "r \<noteq> of_char CHR ''-''"
    "r \<noteq> of_char CHR ''+''" "r \<noteq> 39"
    using isL_facts(3-9,11) [OF assms(1)] by (cases; simp; fail)+
qed

lemma alphanum_not_eof:
  assumes "letterTable isL" "isAlphanum isL r"
  shows "r \<noteq> EofRune"
  using assms letterTable_not(1) by (auto simp: isAlphanum_def isNumber'_def EofRune_def)

lemma endOK_not_alphanum:
  assumes "letterTable isL" "endOK rest"
  shows "rest = [] \<or> (\<not> isAlphanum isL (hd rest) \<and> hd rest \<noteq> EofRune)"
proof (cases rest)
  case Nil
  then show ?thesis by simp
next
  case (Cons x xs)
  then have sep: "isSpace x \<or> x = of_char CHR ''('' \<or> x = of_char CHR '')'' \<or> x = of_char CHR ''.''"
    using assms(2) by (simp add: endOK_def)
  then have "\<not> isL x" using letterTable_not [OF assms(1)] by auto
  then show ?thesis
    using sep Cons by (auto simp: isAlphanum_def isNumber'_def isSpace_def EofRune_def)
qed

lemma lexToken_interned:
  assumes "ty \<noteq> tokenNumber" "atoms l s = Some t"
  shows "lexToken l ty s = (Inr t, l)"
  using assms by (simp add: lexToken_def mkToken_def)

lemma lexNext_identifier:
  assumes "letterTable isL" "isIdentifier isL s" "atoms l s = Some t" "endOK rest"
    "lexAt l (s @ rest)"
  shows "\<exists>l1. lexNext isL l = (Inr t, l1) \<and> lexAt l1 rest \<and> atoms l1 = atoms l"
proof -
  obtain c cs where s: "s = c # cs" "c = of_char CHR ''_'' \<or> isL c"
      "\<forall>r \<in> set cs. isAlphanum isL r"
    using assms(2) by (cases s) (auto simp: isIdentifier_def list_all_iff)
  note c = letter_facts [OF assms(1) s(2)]
  obtain l1 where l1: "read l = (c, l1)" "lexAt l1 (cs @ rest)" "atoms l1 = atoms l"
    using read_lexAt_Cons [of l c "cs @ rest"] assms(5) s(1) c(1) by auto
  have step: "lexNext isL l = alphanum isL l1 tokenAtom c"
    using l1(1) c s(2) by (subst lexNext.simps) simp
  have valid: "\<forall>r \<in> set cs. isAlphanum isL r \<and> r \<noteq> EofRune"
    using s(3) alphanum_not_eof [OF assms(1)] by blast
  have a: "lexAt (accum (isAlphanum isL) l1 c) rest \<and> buf (accum (isAlphanum isL) l1 c) = c # cs \<and>
         atoms (accum (isAlphanum isL) l1 c) = atoms l1"
    using accum_run [OF valid endOK_not_alphanum [OF assms(1,4)] l1(2)] .
  then obtain l2 where l2: "endToken isL (accum (isAlphanum isL) l1 c) = (Inr (), l2)"
      "lexAt l2 rest" "buf l2 = c # cs" "atoms l2 = atoms l"
    using endToken_ok [of "accum (isAlphanum isL) l1 c" rest isL] assms(1,4) l1(3) by auto
  have "lexToken l2 tokenAtom (c # cs) = (Inr t, l2)"
    using lexToken_interned [of tokenAtom l2 "c # cs" t] assms(3) l2(4) s(1) by simp
  then show ?thesis
    using step l2 by (auto simp: alphanum_def)
qed

lemma lexToken_punct:
  assumes "ty \<noteq> tokenNumber" "\<forall>t. atoms l s = Some t \<longrightarrow> tok_typ t = ty"
  shows "\<exists>tok l1. lexToken l ty s = (Inr tok, l1) \<and> tok_typ tok = ty \<and>
           atoms l \<subseteq>\<^sub>m atoms l1 \<and> (\<forall>s'. s' \<noteq> s \<longrightarrow> atoms l1 s' = atoms l s') \<and>
           (\<forall>t. atoms l1 s = Some t \<longrightarrow> tok_typ t = ty) \<and>
           rd l1 = rd l \<and> peeking l1 = peeking l \<and> peekRune l1 = peekRune l"
proof (cases "atoms l s")
  case None
  then show ?thesis
    using assms(1) by (auto simp: lexToken_def mkToken_def Let_def map_le_def)
next
  case (Some t)
  then show ?thesis
    using assms by (auto simp: lexToken_def mkToken_def)
qed

lemma lexNext_punct_gen:
  assumes "lexAt l (c # rest)" "c \<noteq> EofRune"
    and step: "\<And>l1. read l = (c, l1) \<Longrightarrow> lexNext isL l = lexToken l1 ty s"
    and ty: "ty \<noteq> tokenNumber" "\<forall>t. atoms l s = Some t \<longrightarrow> tok_typ t = ty"
    and pres: "\<And>tbl'. \<forall>s'. s' \<noteq> s \<longrightarrow> tbl' s' = atoms l s' \<Longrightarrow>
        \<forall>t. tbl' s = Some t \<longrightarrow> tok_typ t = ty \<Longrightarrow> punctOK tbl'"
  shows "\<exists>tok l1. lexNext isL l = (Inr tok, l1) \<and> tok_typ tok = ty \<and> lexAt l1 rest \<and>
           atoms l \<subseteq>\<^sub>m atoms l1 \<and> punctOK (atoms l1)"
proof -
  obtain l1 where l1: "read l = (c, l1)" "lexAt l1 rest" "atoms l1 = atoms l"
    using read_lexAt_Cons [OF assms(1,2)] by blast
  have "\<forall>t. atoms l1 s = Some t \<longrightarrow> tok_typ t = ty"
    using ty(2) l1(3) by simp
  from lexToken_punct [OF ty(1) this]
  obtain tok l2 where l2: "lexToken l1 ty s = (Inr tok, l2)" "tok_typ tok = ty"
      "atoms l1 \<subseteq>\<^sub>m atoms l2" "\<forall>s'. s' \<noteq> s \<longrightarrow> atoms l2 s' = atoms l1 s'"
      "\<forall>t. atoms l2 s = Some t \<longrightarrow> tok_typ t = ty"
      "rd l2 = rd l1" "peeking l2 = peeking l1" "peekRune l2 = peekRune l1"
    by blast
  have "punctOK (atoms l2)"
    using pres [of "atoms l2"] l2(4,5) l1(3) by simp
  moreover have "lexAt l2 rest"
    using l1(2) l2(6,7,8) by (simp add: lexAt_def)
  moreover have "lexNext isL l = (Inr tok, l2)"
    using step [OF l1(1)] l2(1) by simp
  ultimately show ?thesis
    using l2(2,3) l1(3) by auto
qed

lemma lexNext_lpar:
  assumes "punctOK (atoms l)" "lexAt l (of_char CHR ''('' # rest)"
  shows "\<exists>tok l1. lexNext isL l = (Inr tok, l1) \<and> tok_typ tok = tokenLpar \<and> lexAt l1 rest \<and>
           atoms l \<subseteq>\<^sub>m atoms l1 \<and> punctOK (atoms l1)"
proof (rule lexNext_punct_gen [OF assms(2), where s = "runes ''(''"])
  show "of_char CHR ''('' \<noteq> EofRune" by (simp add: EofRune_def)
  show "lexNext isL l = lexToken l1 tokenLpar (runes ''('')" if "read l = (of_char CHR ''('', l1)" for l1
    using that by (subst lexNext.simps) (simp add: isSpace_def EofRune_def)
  show "tokenLpar \<noteq> tokenNumber" by simp
  show "\<forall>t. atoms l (runes ''('') = Some t \<longrightarrow> tok_typ t = tokenLpar"
    using assms(1) by (simp add: punctOK_def)
  show "punctOK tbl'" if "\<forall>s'. s' \<noteq> runes ''('' \<longrightarrow> tbl' s' = atoms l s'"
    "\<forall>t. tbl' (runes ''('') = Some t \<longrightarrow> tok_typ t = tokenLpar" for tbl'
    using that assms(1) by (simp add: punctOK_def runes_def)
qed

lemma lexNext_rpar:
  assumes "punctOK (atoms l)" "lexAt l (of_char CHR '')'' # rest)"
  shows "\<exists>tok l1. lexNext isL l = (Inr tok, l1) \<and> tok_typ tok = tokenRpar \<and> lexAt l1 rest \<and>
           atoms l \<subseteq>\<^sub>m atoms l1 \<and> punctOK (atoms l1)"
proof (rule lexNext_punct_gen [OF assms(2), where s = "runes '')''"])
  show "of_char CHR '')'' \<noteq> EofRune" by (simp add: EofRune_def)
  show "lexNext isL l = lexToken l1 tokenRpar (runes '')'')" if "read l = (of_char CHR '')'', l1)" for l1
    using that by (subst lexNext.simps) (simp add: isSpace_def EofRune_def)
  show "tokenRpar \<noteq> tokenNumber" by simp
  show "\<forall>t. atoms l (runes '')'') = Some t \<longrightarrow> tok_typ t = tokenRpar"
    using assms(1) by (simp add: punctOK_def)
  show "punctOK tbl'" if "\<forall>s'. s' \<noteq> runes '')'' \<longrightarrow> tbl' s' = atoms l s'"
    "\<forall>t. tbl' (runes '')'') = Some t \<longrightarrow> tok_typ t = tokenRpar" for tbl'
    using that assms(1) by (simp add: punctOK_def runes_def)
qed

lemma lexNext_dot:
  assumes "punctOK (atoms l)" "lexAt l (of_char CHR ''.'' # rest)"
  shows "\<exists>tok l1. lexNext isL l = (Inr tok, l1) \<and> tok_typ tok = tokenDot \<and> lexAt l1 rest \<and>
           atoms l \<subseteq>\<^sub>m atoms l1 \<and> punctOK (atoms l1)"
proof (rule lexNext_punct_gen [OF assms(2), where s = "runes ''.''"])
  show "of_char CHR ''.'' \<noteq> EofRune" by (simp add: EofRune_def)
  show "lexNext isL l = lexToken l1 tokenDot (runes ''.'')" if "read l = (of_char CHR ''.'', l1)" for l1
    using that by (subst lexNext.simps) (simp add: isSpace_def EofRune_def)
  show "tokenDot \<noteq> tokenNumber" by simp
  show "\<forall>t. atoms l (runes ''.'') = Some t \<longrightarrow> tok_typ t = tokenDot"
    using assms(1) by (simp add: punctOK_def)
  show "punctOK tbl'" if "\<forall>s'. s' \<noteq> runes ''.'' \<longrightarrow> tbl' s' = atoms l s'"
    "\<forall>t. tbl' (runes ''.'') = Some t \<longrightarrow> tok_typ t = tokenDot" for tbl'
    using that assms(1) by (simp add: punctOK_def runes_def)
qed

lemma lexNext_quote:
  assumes "punctOK (atoms l)" "lexAt l (39 # rest)"
  shows "\<exists>tok l1. lexNext isL l = (Inr tok, l1) \<and> tok_typ tok = tokenQuote \<and> lexAt l1 rest \<and>
           atoms l \<subseteq>\<^sub>m atoms l1 \<and> punctOK (atoms l1)"
proof (rule lexNext_punct_gen [OF assms(2), where s = "[39]"])
  show "39 \<noteq> EofRune" by (simp add: EofRune_def)
  show "lexNext isL l = lexToken l1 tokenQuote [39]" if "read l = (39, l1)" for l1
    using that by (subst lexNext.simps) (simp add: isSpace_def EofRune_def isNumber'_def)
  show "tokenQuote \<noteq> tokenNumber" by simp
  show "\<forall>t. atoms l [39] = Some t \<longrightarrow> tok_typ t = tokenQuote"
    using assms(1) by (simp add: punctOK_def)
  show "punctOK tbl'" if "\<forall>s'. s' \<noteq> [39] \<longrightarrow> tbl' s' = atoms l s'"
    "\<forall>t. tbl' [39] = Some t \<longrightarrow> tok_typ t = tokenQuote" for tbl'
    using that assms(1) by (simp add: punctOK_def runes_def)
qed

lemma lexNext_space:
  assumes "lexAt l (32 # rest)"
  shows "\<exists>l1. lexNext isL l = lexNext isL l1 \<and> lexAt l1 rest \<and> atoms l1 = atoms l"
proof -
  obtain l1 where l1: "read l = (32, l1)" "lexAt l1 rest" "atoms l1 = atoms l"
    using read_lexAt_Cons [OF assms] by (auto simp: EofRune_def)
  have "lexNext isL l = lexNext isL l1"
    using l1(1) by (subst lexNext.simps) (simp add: isSpace_def)
  then show ?thesis using l1 by blast
qed

subsection \<open>Parser states\<close>

subsection \<open>Tokens at the parser\<close>

lemma advances_refl: "parserAt p s \<Longrightarrow> punctOK (atoms (lex p)) \<Longrightarrow> advances p p s"
  by (simp add: advances_def)

lemma advances_trans:
  "advances p p1 s1 \<Longrightarrow> advances p1 p2 s2 \<Longrightarrow> advances p p2 s2"
  by (auto simp: advances_def intro: map_le_trans)

lemma readable_mono:
  "readable isL tbl t \<Longrightarrow> tbl \<subseteq>\<^sub>m tbl' \<Longrightarrow> readable isL tbl' t"
  by (auto simp: readable_def map_le_def dom_def)

lemma listForm_mono:
  "(listForm isL tbl e \<longrightarrow> tbl \<subseteq>\<^sub>m tbl' \<longrightarrow> listForm isL tbl' e) \<and>
   (listTail isL tbl e \<longrightarrow> tbl \<subseteq>\<^sub>m tbl' \<longrightarrow> listTail isL tbl' e)"
proof (induction e)
  case Nil
  show ?case by simp
next
  case (Atom t)
  show ?case using readable_mono by auto
next
  case (Pair a d)
  show ?case
  proof (cases "getAtom a = Some tokQuote")
    case False
    then show ?thesis using Pair by auto
  next
    case True
    have tail: "listTail isL tbl (Pair a d) \<longrightarrow> tbl \<subseteq>\<^sub>m tbl' \<longrightarrow> listTail isL tbl' (Pair a d)"
      using Pair by auto
    have "listForm isL tbl (Pair a d) \<longrightarrow> tbl \<subseteq>\<^sub>m tbl' \<longrightarrow> listForm isL tbl' (Pair a d)"
    proof (intro impI)
      assume h: "listForm isL tbl (Pair a d)" "tbl \<subseteq>\<^sub>m tbl'"
      then obtain x where d: "d = Pair x Nil" "listForm isL tbl x"
        using True by (auto split: expr.splits)
      then have "listTail isL tbl d" by simp
      then have "listTail isL tbl' d" using Pair.IH(2) h(2) by blast
      then have "listForm isL tbl' x" using d(1) by simp
      then show "listForm isL tbl' (Pair a d)"
        using True d by simp
    qed
    then show ?thesis using tail by blast
  qed
qed

subsection \<open>The tokens the parser reads\<close>

lemma parserNext_fresh:
  "peekTok p = None \<Longrightarrow> lexNext isL (lex p) = (r, l) \<Longrightarrow> parserNext isL p = (r, p\<lparr>lex := l\<rparr>)"
  by (simp add: parserNext_def)

lemma parserNext_punct:
  assumes "parserAt p (c # rest)" "punctOK (atoms (lex p))"
    and lx: "\<And>l. punctOK (atoms l) \<Longrightarrow> lexAt l (c # rest) \<Longrightarrow>
        \<exists>tok l1. lexNext isL l = (Inr tok, l1) \<and> tok_typ tok = ty \<and> lexAt l1 rest \<and>
           atoms l \<subseteq>\<^sub>m atoms l1 \<and> punctOK (atoms l1)"
  shows "\<exists>tok p1. parserNext isL p = (Inr tok, p1) \<and> tok_typ tok = ty \<and> advances p p1 rest"
proof -
  obtain tok l1 where l1: "lexNext isL (lex p) = (Inr tok, l1)" "tok_typ tok = ty" "lexAt l1 rest"
      "atoms (lex p) \<subseteq>\<^sub>m atoms l1" "punctOK (atoms l1)"
    using lx [of "lex p"] assms(1,2) by (auto simp: parserAt_def)
  have "parserNext isL p = (Inr tok, p\<lparr>lex := l1\<rparr>)"
    using parserNext_fresh l1(1) assms(1) by (simp add: parserAt_def)
  moreover have "advances p (p\<lparr>lex := l1\<rparr>) rest"
    using l1 assms(1) by (simp add: advances_def parserAt_def)
  ultimately show ?thesis using l1(2) by blast
qed

lemma parserNext_lpar:
  assumes "parserAt p (40 # rest)" "punctOK (atoms (lex p))"
  shows "\<exists>tok p1. parserNext isL p = (Inr tok, p1) \<and> tok_typ tok = tokenLpar \<and> advances p p1 rest"
  using parserNext_punct [OF assms] lexNext_lpar [where isL = isL and rest = rest] by simp

lemma parserNext_rpar:
  assumes "parserAt p (41 # rest)" "punctOK (atoms (lex p))"
  shows "\<exists>tok p1. parserNext isL p = (Inr tok, p1) \<and> tok_typ tok = tokenRpar \<and> advances p p1 rest"
  using parserNext_punct [OF assms] lexNext_rpar [where isL = isL and rest = rest] by simp

lemma parserNext_dot:
  assumes "parserAt p (46 # rest)" "punctOK (atoms (lex p))"
  shows "\<exists>tok p1. parserNext isL p = (Inr tok, p1) \<and> tok_typ tok = tokenDot \<and> advances p p1 rest"
  using parserNext_punct [OF assms] lexNext_dot [where isL = isL and rest = rest] by simp

lemma parserNext_quote:
  assumes "parserAt p (39 # rest)" "punctOK (atoms (lex p))"
  shows "\<exists>tok p1. parserNext isL p = (Inr tok, p1) \<and> tok_typ tok = tokenQuote \<and> advances p p1 rest"
  using parserNext_punct [OF assms] lexNext_quote by blast

lemma parserNext_space:
  assumes "parserAt p (32 # rest)"
  shows "\<exists>p1. parserNext isL p = (case parserNext isL p1 of (r, q) \<Rightarrow> (r, q)) \<and>
           parserNext isL p = parserNext isL p1 \<and> parserAt p1 rest \<and>
           atoms (lex p1) = atoms (lex p)"
proof -
  obtain l1 where l1: "lexNext isL (lex p) = lexNext isL l1" "lexAt l1 rest"
      "atoms l1 = atoms (lex p)"
    using lexNext_space [of "lex p" rest isL] assms by (auto simp: parserAt_def)
  have "parserNext isL p = parserNext isL (p\<lparr>lex := l1\<rparr>)"
    using l1(1) assms by (simp add: parserNext_def parserAt_def)
  moreover have "parserAt (p\<lparr>lex := l1\<rparr>) rest" "atoms (lex (p\<lparr>lex := l1\<rparr>)) = atoms (lex p)"
    using l1 assms by (simp_all add: parserAt_def)
  ultimately show ?thesis by (metis (no_types, lifting) case_prod_beta prod.collapse)
qed

lemma tokenString_readable:
  assumes "letterTable isL" "readable isL (atoms l) t" "endOK rest" "lexAt l (tokenString t @ rest)"
  shows "\<exists>l1. lexNext isL l = (Inr t, l1) \<and> lexAt l1 rest \<and> atoms l1 = atoms l"
proof (cases "tok_typ t = tokenNumber \<and> tok_text t = []")
  case True
  then have "tokenString t = showInt (tok_num t)" "number (tok_num t) = t"
    by (simp_all add: tokenString_def number_def)
  then show ?thesis
    using lexNext_showInt [OF assms(1,3), of l "tok_num t"] assms(4) by auto
next
  case False
  then have r: "tok_typ t = tokenAtom \<or> tok_typ t = tokenConst" "atoms l (tok_text t) = Some t"
      "isIdentifier isL (tok_text t)"
    using assms(2) by (auto simp: readable_def)
  then have "tokenString t = tok_text t"
    by (auto simp: tokenString_def)
  then show ?thesis
    using lexNext_identifier [OF assms(1) r(3) r(2) assms(3)] assms(4) by simp
qed

lemma readable_isAtomTok: "readable isL tbl t \<Longrightarrow> isAtomTok t \<and> tok_typ t \<noteq> tokenQuote \<and> tok_typ t \<noteq> TokenEOF"
  by (auto simp: readable_def isAtomTok_def)

lemma parserNext_atom:
  assumes "letterTable isL" "readable isL (atoms (lex p)) t" "endOK rest"
    "parserAt p (tokenString t @ rest)" "punctOK (atoms (lex p))"
  shows "\<exists>p1. parserNext isL p = (Inr t, p1) \<and> advances p p1 rest"
proof -
  obtain l1 where l1: "lexNext isL (lex p) = (Inr t, l1)" "lexAt l1 rest" "atoms l1 = atoms (lex p)"
    using tokenString_readable [OF assms(1,2,3)] assms(4) by (auto simp: parserAt_def)
  have "parserNext isL p = (Inr t, p\<lparr>lex := l1\<rparr>)"
    using parserNext_fresh l1(1) assms(4) by (simp add: parserAt_def)
  moreover have "advances p (p\<lparr>lex := l1\<rparr>) rest"
    using l1 assms(4,5) by (simp add: advances_def parserAt_def)
  ultimately show ?thesis by blast
qed

lemma List_next_cong:
  "parserNext isL p = parserNext isL p1 \<Longrightarrow> List isL n p = List isL n p1"
  by (cases n) (simp_all add: parser_0 List_Suc)

lemma lparList_next_cong:
  "parserNext isL p = parserNext isL p1 \<Longrightarrow> lparList isL n p = lparList isL n p1"
  by (cases n) (simp_all add: parser_0 lparList_Suc)

subsection \<open>The tail of a printed list\<close>

subsection \<open>What the printer writes\<close>

lemma buildString_Pair:
  "buildString (Pair a d) True =
     (if getAtom a = Some tokQuote then 39 # buildString (Car d) True
      else 40 # buildList a d True @ [41])"
  by (simp add: buildString.simps(3) runes_def)

lemma buildList_tail:
  "listTail isL tbl d \<Longrightarrow> buildList a d True = buildString a True @ tailString d"
  by (cases d) (simp_all add: buildList.simps tailString_def)

lemma endOK_tail: "endOK (tailString d @ 41 # rest)"
  by (cases d) (simp_all add: tailString_def endOK_def isSpace_def runes_def)

lemma endOK_rpar: "endOK (41 # rest)"
  by (simp add: endOK_def)

lemma advances_space:
  assumes "parserAt p (32 # rest)" "punctOK (atoms (lex p))"
  shows "\<exists>p1. parserNext isL p = parserNext isL p1 \<and> advances p p1 rest \<and>
           atoms (lex p1) = atoms (lex p)"
proof -
  obtain p1 where "parserNext isL p = parserNext isL p1" "parserAt p1 rest"
      "atoms (lex p1) = atoms (lex p)"
    using parserNext_space [OF assms(1)] by blast
  then show ?thesis
    using assms(2) by (auto simp: advances_def)
qed

lemma advances_facts:
  assumes "advances p p1 s"
  shows "parserAt p1 s" "punctOK (atoms (lex p1))" "atoms (lex p) \<subseteq>\<^sub>m atoms (lex p1)"
  using assms by (simp_all add: advances_def)

lemma parserNext_back:
  assumes "peekTok p1 = None"
  shows "parserNext isL (parserBack p1 tok) = (Inr tok, (parserBack p1 tok)\<lparr>peekTok := None\<rparr>)"
    "lex ((parserBack p1 tok)\<lparr>peekTok := None\<rparr>) = lex p1"
    "peekTok ((parserBack p1 tok)\<lparr>peekTok := None\<rparr>) = None"
  by (simp_all add: parserNext_def parserBack_def)

lemma advances_back:
  assumes "advances p p1 s"
  shows "advances p ((parserBack p1 tok)\<lparr>peekTok := None\<rparr>) s"
  using assms by (simp add: advances_def parserAt_def parserBack_def)

subsection \<open>Parsing the tail of a printed list\<close>

lemma tail_rest_Nil:
  assumes "1 \<le> n" "punctOK (atoms (lex p))" "parserAt p (41 # rest)"
  shows "tailParsesTo isL n p Nil rest"
proof -
  obtain m where n: "n = Suc m" using assms(1) by (cases n) auto
  obtain tok p1 where t: "parserNext isL p = (Inr tok, p1)" "tok_typ tok = tokenRpar"
      "advances p p1 rest"
    using parserNext_rpar [of p rest isL] assms(2,3) by blast
  have "lparList isL n p = Some (Inr Nil, parserBack p1 tok)"
    using t(1,2) by (simp add: n lparList_Suc isAtomTok_def)
  moreover have "parserNext isL (parserBack p1 tok) =
      (Inr tok, (parserBack p1 tok)\<lparr>peekTok := None\<rparr>)"
    using parserNext_back(1) advances_facts(1) [OF t(3)] by (simp add: parserAt_def)
  moreover have "advances p ((parserBack p1 tok)\<lparr>peekTok := None\<rparr>) rest"
    using advances_back [OF t(3)] .
  ultimately show ?thesis
    unfolding tailParsesTo_def using t(2) by blast
qed

lemma list_atom:
  assumes "letterTable isL" "1 \<le> n" "readable isL (atoms (lex p)) t" "punctOK (atoms (lex p))"
    "parserAt p (tokenString t @ rest)" "endOK rest"
  shows "parsesTo isL n p (Atom t) rest"
proof -
  obtain m where n: "n = Suc m" using assms(2) by (cases n) auto
  obtain p1 where t: "parserNext isL p = (Inr t, p1)" "advances p p1 rest"
    using parserNext_atom [OF assms(1,3,6,5,4)] by blast
  have "List isL n p = Some (Inr (Atom t), p1)"
    using t(1) readable_isAtomTok [OF assms(3)] by (simp add: n List_Suc atomExpr_def)
  then show ?thesis
    unfolding parsesTo_def using t(2) by blast
qed

lemma tail_rest_Atom:
  assumes "letterTable isL" "2 \<le> n" "readable isL (atoms (lex p)) t" "punctOK (atoms (lex p))"
    "parserAt p (32 # 46 # 32 # tokenString t @ 41 # rest)"
  shows "tailParsesTo isL n p (Atom t) rest"
proof -
  obtain m where n: "n = Suc m" "1 \<le> m" using assms(2) by (cases n) auto
  obtain p0 where p0: "parserNext isL p = parserNext isL p0"
      "advances p p0 (46 # 32 # tokenString t @ 41 # rest)"
    using advances_space [OF assms(5,4)] by blast
  obtain tok p1 where t: "parserNext isL p0 = (Inr tok, p1)" "tok_typ tok = tokenDot"
      "advances p0 p1 (32 # tokenString t @ 41 # rest)"
    using parserNext_dot [of p0 _ isL] advances_facts(1,2) [OF p0(2)] by blast
  obtain p1' where p1': "parserNext isL p1 = parserNext isL p1'"
      "advances p1 p1' (tokenString t @ 41 # rest)"
    using advances_space advances_facts(1,2) [OF t(3)] by blast
  have adv: "advances p p1' (tokenString t @ 41 # rest)"
    using p0(2) t(3) p1'(2) advances_trans by blast
  have "readable isL (atoms (lex p1')) t"
    using readable_mono [OF assms(3)] advances_facts(3) [OF adv] .
  from list_atom [OF assms(1) n(2) this advances_facts(2,1) [OF adv] endOK_rpar]
  obtain p2 where p2: "List isL m p1' = Some (Inr (Atom t), p2)" "advances p1' p2 (41 # rest)"
    unfolding parsesTo_def by blast
  obtain tok2 p3 where r: "parserNext isL p2 = (Inr tok2, p3)" "tok_typ tok2 = tokenRpar"
      "advances p2 p3 rest"
    using parserNext_rpar [of p2 rest isL] advances_facts(1,2) [OF p2(2)] by blast
  have "List isL m p1 = Some (Inr (Atom t), p2)"
    using p2(1) List_next_cong [OF p1'(1)] by simp
  then have "lparList isL n p = Some (Inr (Atom t), p2)"
    using p0(1) t(1,2) by (simp add: n lparList_Suc isAtomTok_def)
  moreover have "advances p p3 rest"
    using adv p2(2) r(3) advances_trans by blast
  ultimately show ?thesis
    unfolding tailParsesTo_def using r(1,2) by blast
qed


lemma TailOK_D:
  assumes "TailOK isL a d" "fuelOf a + fuelOf d + 1 \<le> n" "listForm isL (atoms (lex p)) a"
    "listTail isL (atoms (lex p)) d" "punctOK (atoms (lex p))"
    "parserAt p (buildList a d True @ 41 # rest)"
  shows "tailParsesTo isL n p (Pair a d) rest"
  using assms unfolding TailOK_def by blast

lemma ListOK_D:
  assumes "ListOK isL e" "fuelOf e \<le> n" "listForm isL (atoms (lex p)) e"
    "punctOK (atoms (lex p))" "parserAt p (buildString e True @ rest)" "endOK rest"
  shows "parsesTo isL n p e rest"
  using assms unfolding ListOK_def by blast

lemma tail_rest:
  assumes "letterTable isL"
    and IH: "\<And>a' d'. d = Pair a' d' \<Longrightarrow> TailOK isL a' d'"
    and "fuelOf d \<le> n" "listTail isL (atoms (lex p)) d" "punctOK (atoms (lex p))"
      "parserAt p (tailString d @ 41 # rest)"
  shows "tailParsesTo isL n p d rest"
proof (cases d)
  case Nil
  then show ?thesis
    using tail_rest_Nil [of n p rest isL] assms(3,5,6) by (simp add: tailString_def)
next
  case (Atom t)
  then have "parserAt p (32 # 46 # 32 # tokenString t @ 41 # rest)"
    using assms(6) by (simp add: tailString_def runes_def)
  then show ?thesis
    using tail_rest_Atom [of isL n p t rest] assms(1,3,4,5) Atom by simp
next
  case (Pair a' d')
  then have at: "parserAt p (32 # buildList a' d' True @ 41 # rest)"
    using assms(6) by (simp add: tailString_def)
  obtain p0 where p0: "parserNext isL p = parserNext isL p0"
      "advances p p0 (buildList a' d' True @ 41 # rest)"
    using advances_space [OF at assms(5)] by blast
  have lf: "listForm isL (atoms (lex p0)) a'" "listTail isL (atoms (lex p0)) d'"
    using assms(4) Pair listForm_mono advances_facts(3) [OF p0(2)] by auto
  have "fuelOf a' + fuelOf d' + 1 \<le> n" using assms(3) Pair by simp
  from TailOK_D [OF IH [OF Pair] this lf advances_facts(2,1) [OF p0(2)]]
  obtain p' tok p'' where r: "lparList isL n p0 = Some (Inr (Pair a' d'), p')"
      "parserNext isL p' = (Inr tok, p'')" "tok_typ tok = tokenRpar" "advances p0 p'' rest"
    unfolding tailParsesTo_def by blast
  have "lparList isL n p = Some (Inr (Pair a' d'), p')"
    using r(1) lparList_next_cong [OF p0(1)] by simp
  moreover have "advances p p'' rest"
    using p0(2) r(4) advances_trans by blast
  ultimately show ?thesis
    unfolding tailParsesTo_def using r(2,3) Pair by blast
qed

text \<open>An element has been read up to the parser \<open>p2\<close>; the rest of the list follows.\<close>

lemma tail_after_element:
  assumes "letterTable isL"
    and IH: "\<And>a' d'. d = Pair a' d' \<Longrightarrow> TailOK isL a' d'"
    and "fuelOf d \<le> m" "listTail isL (atoms (lex p)) d"
      "advances p p2 (tailString d @ 41 # rest)"
  shows "\<exists>p' tok p''. lparList isL m p2 = Some (Inr d, p') \<and>
           parserNext isL p' = (Inr tok, p'') \<and> tok_typ tok = tokenRpar \<and> advances p p'' rest"
proof -
  have "listTail isL (atoms (lex p2)) d"
    using assms(4) listForm_mono advances_facts(3) [OF assms(5)] by blast
  from tail_rest [OF assms(1) IH assms(3) this advances_facts(2,1) [OF assms(5)]]
  obtain p' tok p'' where "lparList isL m p2 = Some (Inr d, p')"
      "parserNext isL p' = (Inr tok, p'')" "tok_typ tok = tokenRpar" "advances p2 p'' rest"
    unfolding tailParsesTo_def by blast
  then show ?thesis
    using advances_trans [OF assms(5)] by blast
qed

lemma quote_ok:
  assumes "parsesTo isL m p1 x rest"
  shows "\<exists>p2. quote isL (Suc m) p1 = Some (Inr (Pair (Atom tokQuote) (Pair x Nil)), p2) \<and>
           advances p1 p2 rest"
  using assms unfolding parsesTo_def by (auto simp: quote_Suc Cons_def atomExpr_def)

lemma list_after_lpar:
  assumes "parserNext isL p = (Inr tok, p1)" "tok_typ tok = tokenLpar"
    "tailParsesTo isL m p1 e rest"
  shows "\<exists>p3. List isL (Suc m) p = Some (Inr e, p3) \<and> advances p1 p3 rest"
  using assms unfolding tailParsesTo_def by (auto simp: List_Suc isAtomTok_def)

subsection \<open>The induction\<close>

lemma TailOK_step:
  assumes lt: "letterTable isL"
    and IHq: "\<And>x. a = Pair (Atom tokQuote) (Pair x Nil) \<Longrightarrow> ListOK isL x"
    and IHa: "\<And>a1 a2. a = Pair a1 a2 \<Longrightarrow> TailOK isL a1 a2"
    and IHd: "\<And>a' d'. d = Pair a' d' \<Longrightarrow> TailOK isL a' d'"
  shows "TailOK isL a d"
  unfolding TailOK_def
proof (intro allI impI)
  fix n p rest
  assume fuel: "fuelOf a + fuelOf d + 1 \<le> n"
    and lf: "listForm isL (atoms (lex p)) a" and ltl: "listTail isL (atoms (lex p)) d"
    and pk: "punctOK (atoms (lex p))"
    and at: "parserAt p (buildList a d True @ 41 # rest)"
  define rest' where "rest' = tailString d @ 41 # rest"
  have at': "parserAt p (buildString a True @ rest')"
    using at buildList_tail [OF ltl] by (simp add: rest'_def)
  have ok: "endOK rest'"
    unfolding rest'_def by (rule endOK_tail)
  obtain m where n: "n = Suc m" "fuelOf a + fuelOf d \<le> m"
    using fuel by (cases n) auto
  have md: "fuelOf d \<le> m" using n(2) by simp
  have rest_of: "\<exists>p' tok p''. lparList isL m p2 = Some (Inr d, p') \<and>
      parserNext isL p' = (Inr tok, p'') \<and> tok_typ tok = tokenRpar \<and> advances p p'' rest"
    if "advances p p2 rest'" for p2
    using tail_after_element [where isL = isL and d = d and m = m and p = p and ?p2.0 = p2 and rest = rest]
      lt IHd md ltl that unfolding rest'_def by blast
  show "tailParsesTo isL n p (Pair a d) rest"
  proof (cases a)
    case Nil
    then show ?thesis using lf by simp
  next
    case (Atom t)
    then have rd: "readable isL (atoms (lex p)) t" using lf by simp
    obtain p1 where t: "parserNext isL p = (Inr t, p1)" "advances p p1 rest'"
      using parserNext_atom [OF lt rd ok _ pk] at' Atom by auto
    obtain p' tok p'' where r: "lparList isL m p1 = Some (Inr d, p')"
        "parserNext isL p' = (Inr tok, p'')" "tok_typ tok = tokenRpar" "advances p p'' rest"
      using rest_of [OF t(2)] by blast
    have "lparList isL n p = Some (Inr (Pair a d), p')"
      using t(1) r(1) readable_isAtomTok [OF rd] Atom
      by (simp add: n lparList_Suc Cons_def atomExpr_def)
    then show ?thesis
      unfolding tailParsesTo_def using r(2,3,4) by blast
  next
    case (Pair a1 a2)
    show ?thesis
    proof (cases "getAtom a1 = Some tokQuote")
      case True
      then obtain x where x: "a2 = Pair x Nil" "listForm isL (atoms (lex p)) x"
        using lf Pair by (auto split: expr.splits)
      have a: "a = Pair (Atom tokQuote) (Pair x Nil)"
        using True Pair x(1) by (cases a1) auto
      have at'': "parserAt p (39 # buildString x True @ rest')"
        using at' a by (simp add: buildString_Pair)
      obtain tok p1 where t: "parserNext isL p = (Inr tok, p1)" "tok_typ tok = tokenQuote"
          "advances p p1 (buildString x True @ rest')"
        using parserNext_quote [OF at'' pk] by blast
      obtain m' where m: "m = Suc m'" "fuelOf x \<le> m'"
        using n(2) a by (cases m) auto
      have "listForm isL (atoms (lex p1)) x"
        using x(2) listForm_mono advances_facts(3) [OF t(3)] by blast
      from ListOK_D [OF IHq [OF a] m(2) this advances_facts(2,1) [OF t(3)] ok]
      obtain p2 where q: "quote isL m p1 = Some (Inr a, p2)" "advances p1 p2 rest'"
        using quote_ok [of isL m' p1 x rest'] a m(1) by auto
      have adv: "advances p p2 rest'"
        using t(3) q(2) advances_trans by blast
      obtain p' tok2 p'' where r: "lparList isL m p2 = Some (Inr d, p')"
          "parserNext isL p' = (Inr tok2, p'')" "tok_typ tok2 = tokenRpar" "advances p p'' rest"
        using rest_of [OF adv] by blast
      have "lparList isL n p = Some (Inr (Pair a d), p')"
        using t(1,2) q(1) r(1) by (simp add: n lparList_Suc Cons_def)
      then show ?thesis
        unfolding tailParsesTo_def using r(2,3,4) by blast
    next
      case False
      then have sub: "listForm isL (atoms (lex p)) a1" "listTail isL (atoms (lex p)) a2"
        using lf Pair by auto
      have at'': "parserAt p (40 # buildList a1 a2 True @ 41 # rest')"
        using at' Pair False by (simp add: buildString_Pair)
      obtain tok p1 where t: "parserNext isL p = (Inr tok, p1)" "tok_typ tok = tokenLpar"
          "advances p p1 (buildList a1 a2 True @ 41 # rest')"
        using parserNext_lpar [OF at'' pk] by blast
      obtain m' where m: "m = Suc m'" "fuelOf a1 + fuelOf a2 + 1 \<le> m'"
        using n(2) Pair by (cases m) auto
      define pb where "pb = (parserBack p1 tok)\<lparr>peekTok := None\<rparr>"
      have pb: "parserNext isL (parserBack p1 tok) = (Inr tok, pb)"
          "advances p pb (buildList a1 a2 True @ 41 # rest')"
        using parserNext_back(1) [of p1 isL tok] advances_facts(1) [OF t(3)] advances_back [OF t(3)]
        by (simp_all add: pb_def parserAt_def)
      have "listForm isL (atoms (lex pb)) a1" "listTail isL (atoms (lex pb)) a2"
        using sub listForm_mono advances_facts(3) [OF pb(2)] by blast+
      from TailOK_D [OF IHa [OF Pair] m(2) this advances_facts(2,1) [OF pb(2)]]
      have "tailParsesTo isL m' pb a rest'" using Pair by simp
      from list_after_lpar [OF pb(1) t(2) this]
      obtain p3 where l: "List isL m (parserBack p1 tok) = Some (Inr a, p3)"
          "advances pb p3 rest'"
        using m(1) by blast
      have adv: "advances p p3 rest'"
        using pb(2) l(2) advances_trans by blast
      obtain p' tok2 p'' where r: "lparList isL m p3 = Some (Inr d, p')"
          "parserNext isL p' = (Inr tok2, p'')" "tok_typ tok2 = tokenRpar" "advances p p'' rest"
        using rest_of [OF adv] by blast
      have "lparList isL n p = Some (Inr (Pair a d), p')"
        using t(1,2) l(1) r(1) by (simp add: n lparList_Suc Cons_def isAtomTok_def)
      then show ?thesis
        unfolding tailParsesTo_def using r(2,3,4) by blast
    qed
  qed
qed

lemma ListOK_step:
  assumes lt: "letterTable isL"
    and IHq: "\<And>x. e = Pair (Atom tokQuote) (Pair x Nil) \<Longrightarrow> ListOK isL x"
    and IHt: "\<And>a d. e = Pair a d \<Longrightarrow> TailOK isL a d"
  shows "ListOK isL e"
  unfolding ListOK_def
proof (intro allI impI)
  fix n p rest
  assume fuel: "fuelOf e \<le> n" and lf: "listForm isL (atoms (lex p)) e"
    and pk: "punctOK (atoms (lex p))" and at: "parserAt p (buildString e True @ rest)"
    and ok: "endOK rest"
  show "parsesTo isL n p e rest"
  proof (cases e)
    case Nil
    then show ?thesis using lf by simp
  next
    case (Atom t)
    then show ?thesis
      using list_atom [OF lt _ _ pk _ ok, of n t] fuel lf at by simp
  next
    case (Pair a d)
    show ?thesis
    proof (cases "getAtom a = Some tokQuote")
      case True
      then obtain x where x: "d = Pair x Nil" "listForm isL (atoms (lex p)) x"
        using lf Pair by (auto split: expr.splits)
      have e: "e = Pair (Atom tokQuote) (Pair x Nil)"
        using True Pair x(1) by (cases a) auto
      have at': "parserAt p (39 # buildString x True @ rest)"
        using at e by (simp add: buildString_Pair)
      obtain tok p1 where t: "parserNext isL p = (Inr tok, p1)" "tok_typ tok = tokenQuote"
          "advances p p1 (buildString x True @ rest)"
        using parserNext_quote [OF at' pk] by blast
      obtain m where n: "n = Suc (Suc m)" "fuelOf x \<le> m"
        using fuel e by (cases n; cases "n - 1") auto
      have "listForm isL (atoms (lex p1)) x"
        using x(2) listForm_mono advances_facts(3) [OF t(3)] by blast
      from ListOK_D [OF IHq [OF e] n(2) this advances_facts(2,1) [OF t(3)] ok]
      obtain p2 where q: "quote isL (Suc m) p1 = Some (Inr e, p2)" "advances p1 p2 rest"
        using quote_ok [of isL m p1 x rest] e by auto
      have "List isL n p = Some (Inr e, p2)"
        using t(1,2) q(1) by (simp add: n List_Suc)
      then show ?thesis
        unfolding parsesTo_def using advances_trans [OF t(3) q(2)] by blast
    next
      case False
      then have sub: "listForm isL (atoms (lex p)) a" "listTail isL (atoms (lex p)) d"
        using lf Pair by auto
      have at': "parserAt p (40 # buildList a d True @ 41 # rest)"
        using at Pair False by (simp add: buildString_Pair)
      obtain tok p1 where t: "parserNext isL p = (Inr tok, p1)" "tok_typ tok = tokenLpar"
          "advances p p1 (buildList a d True @ 41 # rest)"
        using parserNext_lpar [OF at' pk] by blast
      obtain m where n: "n = Suc m" "fuelOf a + fuelOf d + 1 \<le> m"
        using fuel Pair by (cases n) auto
      have "listForm isL (atoms (lex p1)) a" "listTail isL (atoms (lex p1)) d"
        using sub listForm_mono advances_facts(3) [OF t(3)] by blast+
      from TailOK_D [OF IHt [OF Pair] n(2) this advances_facts(2,1) [OF t(3)]]
      have "tailParsesTo isL m p1 e rest" using Pair by simp
      from list_after_lpar [OF t(1,2) this]
      obtain p3 where "List isL n p = Some (Inr e, p3)" "advances p1 p3 rest"
        using n(1) by blast
      then show ?thesis
        unfolding parsesTo_def using advances_trans [OF t(3)] by blast
    qed
  qed
qed

lemma roundtrip_all:
  assumes "letterTable isL"
  shows "ListOK isL e \<and> (\<forall>a d. e = Pair a d \<longrightarrow> TailOK isL a d)"
proof (induction e rule: measure_induct_rule [of size])
  case (less e)
  have tail: "TailOK isL a d" if e: "e = Pair a d" for a d
  proof (rule TailOK_step [OF assms])
    show "ListOK isL x" if "a = Pair (Atom tokQuote) (Pair x Nil)" for x
      using less.IH [of x] that e by simp
    show "TailOK isL a1 a2" if "a = Pair a1 a2" for a1 a2
      using less.IH [of a] that e by simp
    show "TailOK isL a' d'" if "d = Pair a' d'" for a' d'
      using less.IH [of d] that e by simp
  qed
  have "ListOK isL e"
  proof (rule ListOK_step [OF assms])
    show "ListOK isL x" if "e = Pair (Atom tokQuote) (Pair x Nil)" for x
      using less.IH [of x] that by simp
    show "TailOK isL a d" if "e = Pair a d" for a d
      using tail that by blast
  qed
  then show ?case using tail by blast
qed

subsection \<open>The round trip\<close>

lemma punctOK_initAtoms: "punctOK initAtoms"
  by (simp add: punctOK_def initAtoms_def predefined_def tok_defs)

lemma parserAt_NewParser: "parserAt (NewParser tbl s) s"
  by (simp add: parserAt_def NewParser_def newLexer_def lexAt_def)

text \<open>
  Claim C4, as amended. Printing in list form and parsing the result in list form gives
  the expression back, identical token for token, for every expression in list form
  (\<open>listForm\<close>): it is not the empty expression, its atoms are numbers or the
  identifiers interned in the table of atoms, no element of a list is the empty expression,
  no list ends in the atom \<open>nil\<close>, and every pair headed by \<open>quote\<close> is exactly
  \<open>(quote x)\<close>. The parser is given enough fuel to return, and the table holds the
  punctuation, if at all, with its own kinds.
\<close>

theorem list_print_parse_roundtrip:
  assumes "letterTable isL" and "punctOK tbl" and "listForm isL tbl e" and "fuelOf e \<le> n"
  shows "\<exists>p'. List isL n (NewParser tbl (String False e)) = Some (Inr e, p')"
proof -
  let ?p = "NewParser tbl (String False e)"
  have tbl: "atoms (lex ?p) = tbl"
    by (simp add: NewParser_def newLexer_def)
  have "e \<noteq> Nil"
    using assms(3) by auto
  then have "parserAt ?p (buildString e True @ [])"
    using parserAt_NewParser [of tbl "String False e"] by (simp add: String_def)
  moreover have "ListOK isL e"
    using roundtrip_all [OF assms(1)] by blast
  moreover have "endOK []"
    by (simp add: endOK_def)
  ultimately have "parsesTo isL n ?p e []"
    using assms(2,3,4) tbl unfolding ListOK_def by metis
  then show ?thesis
    unfolding parsesTo_def by blast
qed

text \<open>The round trip on \<open>(car '(cdr . T) -12)\<close> over the table of the reserved names.\<close>

theorem list_print_parse_roundtrip_witness:
  "letterTable asciiLetter \<and> punctOK initAtoms \<and> listForm asciiLetter initAtoms exRound \<and>
   fuelOf exRound \<le> 30 \<and>
   String False exRound = runes ''(car '(cdr . T) -12)'' \<and>
   map_option fst (List asciiLetter 30 (NewParser initAtoms (String False exRound))) =
     Some (Inr exRound)"
proof -
  have lf: "listForm asciiLetter initAtoms exRound"
    by code_simp
  have fu: "fuelOf exRound \<le> 30"
    by code_simp
  have st: "String False exRound = runes ''(car '(cdr . T) -12)''"
    by code_simp
  from list_print_parse_roundtrip [OF letterTable_asciiLetter punctOK_initAtoms lf fu]
  have "map_option fst (List asciiLetter 30 (NewParser initAtoms (String False exRound))) =
     Some (Inr exRound)"
    by auto
  then show ?thesis
    using letterTable_asciiLetter punctOK_initAtoms lf fu st by blast
qed

text \<open>
  Claim C4 as stated fails on expressions without any raw-character atom: the empty
  expression is printed \<open>nil\<close> and read back as the atom \<open>nil\<close>; the pair
  \<open>(car . nil)\<close> is printed \<open>(car)\<close> and read back with an empty tail; and
  \<open>(quote car cdr)\<close> is printed \<open>'car\<close> and read back as \<open>(quote car)\<close>.
\<close>

theorem list_roundtrip_counterexample:
  "String False Nil = runes ''nil''
   \<and> map_option fst (List asciiLetter 9 (NewParser initAtoms (String False Nil))) =
       Some (Inr (Atom tokNil))
   \<and> Atom tokNil \<noteq> Nil
   \<and> String False exNilTail = runes ''(car)''
   \<and> map_option fst (List asciiLetter 9 (NewParser initAtoms (String False exNilTail))) =
       Some (Inr (Pair (Atom tokCar) Nil))
   \<and> Pair (Atom tokCar) Nil \<noteq> exNilTail
   \<and> String False exQuote2 = runes '''car''
   \<and> map_option fst (List asciiLetter 9 (NewParser initAtoms (String False exQuote2))) =
       Some (Inr (Pair (Atom tokQuote) (Pair (Atom tokCar) Nil)))
   \<and> Pair (Atom tokQuote) (Pair (Atom tokCar) Nil) \<noteq> exQuote2"
  by code_simp


end
